theory Spec2Isabelle
  imports Main "HOL-Library.Sublist" "HOL-Library.AList"
begin

section \<open>Python string helpers\<close>

text \<open>
  A Python \<open>str\<close> is modelled as a \<^typ>\<open>string\<close>: the bytes of its UTF-8 encoding, on
  which concatenation, \<open>join\<close>, \<open>startswith\<close> and \<open>replace\<close> act as they do on the text.
  \<open>str.strip\<close>, which knows the Unicode white space, is a collaborator of the agents (field
  \<open>str_strip\<close> below), like the tokenizer and the JSON reader. The two long system prompts,
  which hold non-ASCII characters, are parameters of the agents too; no property below
  depends on the text of a prompt.
\<close>

definition nl :: string where
  "nl = [CHR 0x0A]"

text \<open>\<open>sep.join(xs)\<close>\<close>

fun join :: "string \<Rightarrow> string list \<Rightarrow> string" where
  "join sep [] = []"
| "join sep [x] = x"
| "join sep (x # y # ys) = x @ sep @ join sep (y # ys)"

text \<open>\<open>str.isspace\<close> on one ASCII character: tab, line feed, vertical tab, form feed,
  carriage return, the four separators 0x1C..0x1F and the blank.\<close>

definition is_space :: "char \<Rightarrow> bool" where
  "is_space c = (c \<in> set [CHR 0x09, CHR 0x0A, CHR 0x0B, CHR 0x0C, CHR 0x0D,
                          CHR 0x1C, CHR 0x1D, CHR 0x1E, CHR 0x1F, CHR 0x20])"

text \<open>Stripping ASCII white space: what \<open>s.strip()\<close> does on ASCII text. It serves as
  the \<open>str_strip\<close> of the example agents only.\<close>

definition ascii_strip :: "string \<Rightarrow> string" where
  "ascii_strip s = rev (dropWhile is_space (rev (dropWhile is_space s)))"

text \<open>\<open>s.startswith(p)\<close>\<close>

definition startswith :: "string \<Rightarrow> string \<Rightarrow> bool" where
  "startswith s p = prefix p s"

text \<open>\<open>s.replace(old, "")\<close> for a non-empty \<open>old\<close>: every occurrence, left to right,
  without overlaps. The counter \<open>skip\<close> is the number of characters of a match still to drop.\<close>

fun remove_from :: "string \<Rightarrow> nat \<Rightarrow> string \<Rightarrow> string" where
  "remove_from old skip [] = []"
| "remove_from old (Suc k) (c # cs) = remove_from old k cs"
| "remove_from old 0 (c # cs) =
     (if prefix old (c # cs) then remove_from old (length old - 1) cs
      else c # remove_from old 0 cs)"

definition remove_all :: "string \<Rightarrow> string \<Rightarrow> string" where
  "remove_all old s = remove_from old 0 s"

text \<open>\<open>s.upper()\<close> on ASCII letters.\<close>

definition upper_char :: "char \<Rightarrow> char" where
  "upper_char c =
     (let n = (of_char c :: nat) in if 97 \<le> n \<and> n \<le> 122 then char_of (n - 32) else c)"

definition upper :: "string \<Rightarrow> string" where
  "upper s = map upper_char s"

text \<open>\<open>str(n)\<close> for a natural number, as the f-string \<open>{i+1}\<close> renders it.\<close>

fun str_nat :: "nat \<Rightarrow> string" where
  "str_nat n =
     (if n < 10 then [char_of (48 + n)] else str_nat (n div 10) @ [char_of (48 + n mod 10)])"

declare str_nat.simps [simp del]

text \<open>\<open>[f"{i+1}. {q}" for i, q in enumerate(qs)]\<close>, with \<open>i\<close> the index of the first element.\<close>

fun enumerate_lines :: "nat \<Rightarrow> string list \<Rightarrow> string list" where
  "enumerate_lines i [] = []"
| "enumerate_lines i (q # qs) = (str_nat (i + 1) @ ''. '' @ q) # enumerate_lines (Suc i) qs"

section \<open>Schemas (\<open>schemas.py\<close>)\<close>

text \<open>A parsed JSON document, as \<open>json.loads\<close> returns it; a dict keeps its insertion order.\<close>

datatype json =
    JNull
  | JBool bool
  | JNum int
  | JStr string
  | JArr "json list"
  | JObj "(string \<times> json) list"

record user_profile =
  preferences :: "string list"
  constraints :: "string list"

record session_summary =
  user_profile :: user_profile
  key_facts :: "string list"
  decisions :: "string list"
  open_questions :: "string list"
  todos :: "string list"

record message_range =
  from_index :: int
  to_index :: int

text \<open>Instants (\<open>datetime\<close> values, stored as ISO text and compared as such) are natural
  numbers: all the code does with them is to order rows.\<close>

type_synonym instant = nat

record session_memory_output =
  session_summary :: session_summary
  message_range_summarized :: message_range
  smo_timestamp :: instant

record query_understanding =
  original_query :: string
  is_ambiguous :: bool
  rewritten_query :: "string option"
  possible_interpretations :: "string list"
  needed_context_from_memory :: "string list"
  clarifying_questions :: "string list"
  final_augmented_context :: string

record message =
  role :: string
  content :: string
  timestamp :: instant
  token_count :: "int option"
  metadata :: "(string \<times> json) list option"

section \<open>The store (\<open>database.py\<close>)\<close>

text \<open>
  One row of table \<open>messages\<close> and one of \<open>session_summaries\<close>. A table is the list of
  its rows in insertion order. Column \<open>summary_json\<close> holds the dumped \<open>SessionSummary\<close>,
  which is read back by the same model, so the row keeps the value itself.
\<close>

record msg_row =
  row_id :: nat
  row_session :: string
  row_msg :: message
  is_summarized :: bool

record summary_row =
  summary_id :: nat
  summary_session :: string
  summary_json :: session_summary
  from_message_index :: int
  to_message_index :: int
  summary_timestamp :: instant

record database =
  messages_tbl :: "msg_row list"
  session_summaries_tbl :: "summary_row list"

definition empty_database :: database where
  "empty_database = \<lparr>messages_tbl = [], session_summaries_tbl = []\<rparr>"

datatype error = StorageError | GenerationError | ValidationError

datatype llm_kind = Structured | Normal

datatype chat_message = SystemMessage string | HumanMessage string

text \<open>
  What the running process holds besides the values passed around: the committed store, the
  calls made to the generation service so far, and the number of storage steps attempted.
\<close>

record world =
  store :: database
  llm_calls :: "(llm_kind \<times> chat_message list) list"
  steps :: nat

text \<open>
  The collaborators of class \<open>Agents\<close> and its configuration. \<open>count_tokens\<close> is the
  tokenizer; \<open>str_strip\<close> is Python's \<open>str.strip\<close>; \<open>llm_invoke\<close> is the generation service, whose answer may depend on everything
  asked before and which either raises or returns the text of its reply; \<open>json_loads\<close> is
  \<open>json.loads\<close> (\<open>None\<close> for a \<open>JSONDecodeError\<close>); the two \<open>validate\<close> functions are the
  schema constructors \<open>SessionSummary(**d)\<close> and \<open>QueryUnderstanding(**d)\<close> (\<open>None\<close> when
  they raise); \<open>storage_raises n\<close> tells whether the \<open>n\<close>-th storage step raises; the two system
  prompts are the fixed instruction texts of the summarizer and of the query agent.
\<close>

record agents =
  token_threshold :: int
  count_tokens :: "string \<Rightarrow> nat"
  str_strip :: "string \<Rightarrow> string"
  llm_invoke :: "llm_kind \<Rightarrow> (llm_kind \<times> chat_message list) list \<Rightarrow> chat_message list \<Rightarrow> error + string"
  json_loads :: "string \<Rightarrow> json option"
  validate_SessionSummary :: "json \<Rightarrow> session_summary option"
  validate_QueryUnderstanding :: "json \<Rightarrow> query_understanding option"
  storage_raises :: "nat \<Rightarrow> bool"
  summarizer_system_prompt :: string
  query_system_prompt :: string

type_synonym 'a io = "world \<Rightarrow> (error + 'a) \<times> world"

definition return_io :: "'a \<Rightarrow> 'a io" where
  "return_io v w = (Inr v, w)"

definition raise_io :: "error \<Rightarrow> 'a io" where
  "raise_io err w = (Inl err, w)"

definition bind_io :: "'a io \<Rightarrow> ('a \<Rightarrow> 'b io) \<Rightarrow> 'b io" where
  "bind_io m f w = (case m w of (Inl err, w') \<Rightarrow> (Inl err, w') | (Inr v, w') \<Rightarrow> f v w')"

subsection \<open>Connections and statements\<close>

text \<open>\<open>cursor.execute\<close>: one storage step, which raises or applies the statement to the
  connection's view of the store.\<close>

definition execute :: "agents \<Rightarrow> (database \<Rightarrow> 'a \<times> database) \<Rightarrow> 'a io" where
  "execute a stmt w =
     (if storage_raises a (steps w) then (Inl StorageError, w\<lparr>steps := Suc (steps w)\<rparr>)
      else (case stmt (store w) of (v, d) \<Rightarrow> (Inr v, w\<lparr>store := d, steps := Suc (steps w)\<rparr>)))"

text \<open>
  \<open>_get_connection\<close>: the body runs on the connection; when it raises, the connection rolls
  back and the exception goes on; otherwise the connection commits, itself a storage step
  that may raise and then rolls back too. (A connection that cannot be opened leaves the
  store as a first statement that raises does.) The field \<open>store\<close> of the world is the
  connection's view while the body runs and the committed store once it is over.
\<close>

definition get_connection :: "agents \<Rightarrow> 'a io \<Rightarrow> 'a io" where
  "get_connection a body w =
     (case body w of
        (Inl err, w') \<Rightarrow> (Inl err, w'\<lparr>store := store w\<rparr>)
      | (Inr v, w') \<Rightarrow>
          (if storage_raises a (steps w')
           then (Inl StorageError, w'\<lparr>store := store w, steps := Suc (steps w')\<rparr>)
           else (Inr v, w'\<lparr>steps := Suc (steps w')\<rparr>)))"

subsection \<open>Queries\<close>

text \<open>\<open>LIMIT n\<close> (a negative \<open>n\<close> is no limit) and \<open>OFFSET k\<close> (a negative \<open>k\<close> is 0).\<close>

definition sql_limit :: "int \<Rightarrow> 'a list \<Rightarrow> 'a list" where
  "sql_limit n xs = (if n < 0 then xs else take (nat n) xs)"

definition sql_offset :: "int \<Rightarrow> 'a list \<Rightarrow> 'a list" where
  "sql_offset k xs = drop (nat k) xs"

text \<open>\<open>ORDER BY timestamp ASC\<close>: rows with equal timestamps stay in insertion order.\<close>

definition order_by_timestamp :: "msg_row list \<Rightarrow> msg_row list" where
  "order_by_timestamp rows = sort_key (\<lambda>r. timestamp (row_msg r)) rows"

text \<open>\<open>SELECT ... FROM messages WHERE session_id = ? [AND is_summarized = 0]
  ORDER BY timestamp ASC [LIMIT n]\<close>\<close>

definition select_messages :: "database \<Rightarrow> string \<Rightarrow> int option \<Rightarrow> bool \<Rightarrow> msg_row list" where
  "select_messages d sid limit exclude_summarized =
     (let rows = order_by_timestamp
            (filter (\<lambda>r. row_session r = sid \<and> (exclude_summarized \<longrightarrow> \<not> is_summarized r))
               (messages_tbl d))
      in case limit of
           None \<Rightarrow> rows
         | Some n \<Rightarrow> (if n = 0 then rows else sql_limit n rows))"

definition get_messages :: "agents \<Rightarrow> string \<Rightarrow> int option \<Rightarrow> bool \<Rightarrow> message list io" where
  "get_messages a sid limit exclude_summarized =
     get_connection a
       (execute a (\<lambda>d. (map row_msg (select_messages d sid limit exclude_summarized), d)))"

text \<open>\<open>get_recent_messages\<close>: the \<open>n\<close> latest rows (\<open>ORDER BY timestamp DESC LIMIT n\<close>),
  reversed into chronological order.\<close>

definition select_recent :: "database \<Rightarrow> string \<Rightarrow> int \<Rightarrow> msg_row list" where
  "select_recent d sid n =
     rev (sql_limit n (rev (order_by_timestamp
            (filter (\<lambda>r. row_session r = sid) (messages_tbl d)))))"

definition get_recent_messages :: "agents \<Rightarrow> string \<Rightarrow> int \<Rightarrow> message list io" where
  "get_recent_messages a sid n =
     get_connection a (execute a (\<lambda>d. (map row_msg (select_recent d sid n), d)))"

subsection \<open>Updates\<close>

text \<open>The next value of an \<open>AUTOINCREMENT\<close> key: one more than the largest key of the
  table (the operations modelled here delete no row).\<close>

definition next_id :: "nat list \<Rightarrow> nat" where
  "next_id ids = Suc (fold max ids 0)"

text \<open>\<open>save_message\<close>: an empty metadata dict is stored as \<open>NULL\<close>.\<close>

definition insert_message :: "string \<Rightarrow> message \<Rightarrow> database \<Rightarrow> nat \<times> database" where
  "insert_message sid m d =
     (let i = next_id (map row_id (messages_tbl d));
          metadata_json = (case metadata m of None \<Rightarrow> None
                           | Some kvs \<Rightarrow> (if kvs = [] then None else Some kvs))
      in (i, d\<lparr>messages_tbl := messages_tbl d @
                 [\<lparr>row_id = i, row_session = sid,
                   row_msg = m\<lparr>metadata := metadata_json\<rparr>, is_summarized = False\<rparr>]\<rparr>))"

definition save_message :: "agents \<Rightarrow> string \<Rightarrow> message \<Rightarrow> nat io" where
  "save_message a sid m = get_connection a (execute a (insert_message sid m))"

text \<open>
  \<open>UPDATE messages SET is_summarized = 1 WHERE session_id = ? AND id IN
  (SELECT id FROM messages WHERE session_id = ? ORDER BY timestamp ASC LIMIT ? OFFSET ?)\<close>
  with \<open>LIMIT to_index - from_index + 1\<close> and \<open>OFFSET from_index\<close>.
\<close>

definition range_ids :: "database \<Rightarrow> string \<Rightarrow> int \<Rightarrow> int \<Rightarrow> nat list" where
  "range_ids d sid from_i to_i =
     map row_id
       (sql_limit (to_i - from_i + 1)
          (sql_offset from_i
             (order_by_timestamp (filter (\<lambda>r. row_session r = sid) (messages_tbl d)))))"

definition update_summarized :: "string \<Rightarrow> int \<Rightarrow> int \<Rightarrow> database \<Rightarrow> unit \<times> database" where
  "update_summarized sid from_i to_i d =
     (let ids = range_ids d sid from_i to_i
      in ((), d\<lparr>messages_tbl :=
                  map (\<lambda>r. if row_session r = sid \<and> row_id r \<in> set ids
                           then r\<lparr>is_summarized := True\<rparr> else r)
                    (messages_tbl d)\<rparr>))"

definition mark_messages_as_summarized :: "agents \<Rightarrow> string \<Rightarrow> int \<Rightarrow> int \<Rightarrow> unit io" where
  "mark_messages_as_summarized a sid from_i to_i =
     get_connection a (execute a (update_summarized sid from_i to_i))"

text \<open>\<open>save_summary\<close>: the \<open>INSERT\<close> of the summary row and the \<open>UPDATE\<close> of the flags run
  on one connection, inside one \<open>with\<close> block.\<close>

definition insert_summary :: "string \<Rightarrow> session_memory_output \<Rightarrow> database \<Rightarrow> nat \<times> database" where
  "insert_summary sid s d =
     (let i = next_id (map summary_id (session_summaries_tbl d))
      in (i, d\<lparr>session_summaries_tbl := session_summaries_tbl d @
                 [\<lparr>summary_id = i, summary_session = sid,
                   summary_json = session_summary s,
                   from_message_index = from_index (message_range_summarized s),
                   to_message_index = to_index (message_range_summarized s),
                   summary_timestamp = smo_timestamp s\<rparr>]\<rparr>))"

definition save_summary :: "agents \<Rightarrow> string \<Rightarrow> session_memory_output \<Rightarrow> nat io" where
  "save_summary a sid s =
     get_connection a
       (bind_io (execute a (insert_summary sid s)) (\<lambda>summary_id.
        bind_io (execute a (update_summarized sid
                   (from_index (message_range_summarized s))
                   (to_index (message_range_summarized s)))) (\<lambda>_.
        return_io summary_id)))"

text \<open>
  Reading summaries back. The index on \<open>session_summaries\<close> is declared on
  \<open>(session_id, timestamp DESC)\<close>: read forwards it gives the latest timestamp first and rows
  with equal timestamps in insertion order (\<open>summaries_desc\<close>, the order of \<open>ORDER BY
  timestamp DESC\<close>); \<open>ORDER BY timestamp ASC\<close> reads it backwards, so that rows with equal
  timestamps come in reverse insertion order.
\<close>

definition output_of_row :: "summary_row \<Rightarrow> session_memory_output" where
  "output_of_row r =
     \<lparr>session_summary = summary_json r,
      message_range_summarized =
        \<lparr>from_index = from_message_index r, to_index = to_message_index r\<rparr>,
      smo_timestamp = summary_timestamp r\<rparr>"

definition summaries_desc :: "database \<Rightarrow> string \<Rightarrow> summary_row list" where
  "summaries_desc d sid =
     rev (sort_key summary_timestamp
            (rev (filter (\<lambda>r. summary_session r = sid) (session_summaries_tbl d))))"

definition select_summaries :: "database \<Rightarrow> string \<Rightarrow> summary_row list" where
  "select_summaries d sid = rev (summaries_desc d sid)"

definition get_all_summaries :: "agents \<Rightarrow> string \<Rightarrow> session_memory_output list io" where
  "get_all_summaries a sid =
     get_connection a (execute a (\<lambda>d. (map output_of_row (select_summaries d sid), d)))"

definition select_latest_summary :: "database \<Rightarrow> string \<Rightarrow> session_memory_output option" where
  "select_latest_summary d sid =
     (case sql_limit 1 (summaries_desc d sid) of
        [] \<Rightarrow> None
      | r # _ \<Rightarrow> Some (output_of_row r))"

definition get_latest_summary :: "agents \<Rightarrow> string \<Rightarrow> session_memory_output option io" where
  "get_latest_summary a sid =
     get_connection a (execute a (\<lambda>d. (select_latest_summary d sid, d)))"

section \<open>Token counting (\<open>utils.py\<close>)\<close>

definition count_message_tokens :: "agents \<Rightarrow> message \<Rightarrow> int" where
  "count_message_tokens a m =
     (let tokens = int (count_tokens a (content m));
          tokens = tokens + int (count_tokens a (role m));
          tokens = tokens + 4
      in tokens)"

section \<open>The agents (\<open>agents.py\<close>)\<close>

text \<open>The state dictionary handed from one node of the graph to the next.\<close>

record state =
  session_id :: string
  user_query :: string
  messages :: "message list"
  total_tokens :: int
  needs_summarization :: bool
  st_session_summary :: "session_memory_output option"
  st_query_understanding :: "query_understanding option"
  final_response :: string

text \<open>A call to the generation service: it is logged, then it raises or returns
  \<open>response.content\<close>.\<close>

definition invoke :: "agents \<Rightarrow> llm_kind \<Rightarrow> chat_message list \<Rightarrow> string io" where
  "invoke a kind prompt w =
     (let w' = w\<lparr>llm_calls := llm_calls w @ [(kind, prompt)]\<rparr>
      in case llm_invoke a kind (llm_calls w) prompt of
           Inl err \<Rightarrow> (Inl err, w')
         | Inr text \<Rightarrow> (Inr text, w'))"

subsection \<open>Context agent\<close>

definition context_agent :: "agents \<Rightarrow> state \<Rightarrow> state io" where
  "context_agent a st =
     bind_io (get_messages a (session_id st) None True) (\<lambda>msgs.
       let total = sum_list (map (count_message_tokens a) msgs);
           needs = (total > token_threshold a)
       in return_io (st\<lparr>messages := msgs, total_tokens := total,
                        needs_summarization := needs\<rparr>))"

subsection \<open>Summarizer agent\<close>

text \<open>\<open>', '.join(xs) if xs else 'None'\<close>\<close>

definition render_list :: "string list \<Rightarrow> string" where
  "render_list xs = (if xs = [] then ''None'' else join '', '' xs)"

text \<open>\<open>f"{msg.role.upper()}: {msg.content}"\<close>, one line per message.\<close>

definition render_conversation :: "message list \<Rightarrow> string" where
  "render_conversation msgs = join nl (map (\<lambda>msg. upper (role msg) @ '': '' @ content msg) msgs)"

definition previous_summary_text :: "session_memory_output option \<Rightarrow> string" where
  "previous_summary_text previous_summary =
     (case previous_summary of
        None \<Rightarrow> []
      | Some p \<Rightarrow>
          (let s = session_summary p
           in nl @ ''Previous Summary (to be updated):'' @ nl
              @ ''User Profile:'' @ nl
              @ ''- Preferences: '' @ render_list (preferences (user_profile s)) @ nl
              @ ''- Constraints: '' @ render_list (constraints (user_profile s)) @ nl
              @ ''Key Facts: '' @ render_list (key_facts s) @ nl
              @ ''Decisions: '' @ render_list (decisions s) @ nl
              @ ''Open Questions: '' @ render_list (open_questions s) @ nl
              @ ''Todos: '' @ render_list (todos s) @ nl
              @ nl
              @ ''Instructions: Merge the new conversation below with this previous summary. ''
              @ ''Update facts, add new decisions, resolve or add questions, update todos.''
              @ nl))"

definition summarizer_human_prompt :: "session_memory_output option \<Rightarrow> message list \<Rightarrow> string" where
  "summarizer_human_prompt previous_summary msgs =
     previous_summary_text previous_summary @ nl
     @ nl
     @ ''New Conversation to Process:'' @ nl
     @ render_conversation msgs @ nl
     @ nl
     @ ''Analyze and extract structured information. ''
     @ (if previous_summary \<noteq> None
        then ''UPDATE the previous summary with new information from the conversation above.''
        else ''Create a new summary.'') @ nl
     @ nl
     @ ''Remember: Return ONLY valid JSON, no markdown code blocks.''"

text \<open>The fence of a markdown code block, three backquotes.\<close>

definition fence :: string where
  "fence = [CHR 0x60, CHR 0x60, CHR 0x60]"

text \<open>The first lines of both \<open>try\<close> blocks: strip the reply and drop a markdown wrapper.\<close>

definition unwrap_markdown :: "agents \<Rightarrow> string \<Rightarrow> string" where
  "unwrap_markdown a raw =
     (let content = str_strip a raw
      in if startswith content (fence @ ''json'')
         then str_strip a (remove_all fence (remove_all (fence @ ''json'') content))
         else if startswith content fence
         then str_strip a (remove_all fence content)
         else content)"

text \<open>The \<open>try\<close> block of the summarizer; \<open>None\<close> stands for either \<open>except\<close> branch.\<close>

definition parse_summary :: "agents \<Rightarrow> string \<Rightarrow> session_summary option" where
  "parse_summary a raw =
     (case json_loads a (unwrap_markdown a raw) of
        None \<Rightarrow> None
      | Some summary_dict \<Rightarrow> validate_SessionSummary a summary_dict)"

definition empty_summary :: session_summary where
  "empty_summary =
     \<lparr>user_profile = \<lparr>preferences = [], constraints = []\<rparr>,
      key_facts = [], decisions = [], open_questions = [], todos = []\<rparr>"

text \<open>\<open>MessageRange(from_index=..., to_index=...)\<close>: both fields are declared \<open>ge=0\<close>.\<close>

definition make_MessageRange :: "int \<Rightarrow> int \<Rightarrow> message_range io" where
  "make_MessageRange from_i to_i =
     (if from_i < 0 \<or> to_i < 0 then raise_io ValidationError
      else return_io \<lparr>from_index = from_i, to_index = to_i\<rparr>)"

text \<open>The summarizer; \<open>now\<close> is what \<open>datetime.now()\<close> returns when the output is built.\<close>

definition summarizer_agent :: "agents \<Rightarrow> instant \<Rightarrow> state \<Rightarrow> state io" where
  "summarizer_agent a now st =
     (if messages st = [] then return_io st
      else
        bind_io (get_latest_summary a (session_id st)) (\<lambda>previous_summary.
        bind_io (invoke a Structured
                   [SystemMessage (summarizer_system_prompt a),
                    HumanMessage (summarizer_human_prompt previous_summary (messages st))])
          (\<lambda>response.
        let summary = (case parse_summary a response of
                         Some s \<Rightarrow> s
                       | None \<Rightarrow> empty_summary)
        in
        bind_io (get_messages a (session_id st) None False) (\<lambda>all_messages.
        let total_messages_in_db = int (length all_messages);
            unsummarized_messages_count = int (length (messages st));
            from_i = total_messages_in_db - unsummarized_messages_count;
            to_i = total_messages_in_db - 1
        in
        bind_io (make_MessageRange from_i to_i) (\<lambda>range.
        let summary_output =
              \<lparr>session_summary = summary, message_range_summarized = range,
               smo_timestamp = now\<rparr>
        in
        bind_io (save_summary a (session_id st) summary_output) (\<lambda>_.
        bind_io (mark_messages_as_summarized a (session_id st) from_i to_i) (\<lambda>_.
        return_io (st\<lparr>st_session_summary := Some summary_output,
                      needs_summarization := False\<rparr>))))))))"

subsection \<open>Query understanding agent\<close>

definition recent_context :: "message list \<Rightarrow> string" where
  "recent_context recent_messages =
     (let text = render_conversation recent_messages
      in if text = [] then ''No previous conversation.'' else text)"

definition summary_context :: "session_memory_output option \<Rightarrow> string" where
  "summary_context summary =
     (case summary of
        None \<Rightarrow> []
      | Some p \<Rightarrow>
          (let s = session_summary p
           in nl @ ''Session Memory:'' @ nl
              @ ''- User preferences: '' @ render_list (preferences (user_profile s)) @ nl
              @ ''- Constraints: '' @ render_list (constraints (user_profile s)) @ nl
              @ ''- Key facts: '' @ render_list (take 3 (key_facts s)) @ nl
              @ ''- Open questions: '' @ render_list (take 3 (open_questions s)) @ nl
              @ ''- Todos: '' @ render_list (take 3 (todos s)) @ nl))"

definition query_human_prompt :: "string \<Rightarrow> string \<Rightarrow> string \<Rightarrow> string" where
  "query_human_prompt recent summary_text query =
     ''Recent conversation:'' @ nl
     @ recent @ nl
     @ nl
     @ summary_text @ nl
     @ nl
     @ ''New user query: '' @ [CHR 0x22] @ query @ [CHR 0x22] @ nl
     @ nl
     @ ''Analyze this query for ambiguity and determine what context is needed.''"

text \<open>\<open>if query_dict.get(k) is None: query_dict[k] = []\<close>\<close>

definition sanitize_none :: "string \<Rightarrow> (string \<times> json) list \<Rightarrow> (string \<times> json) list" where
  "sanitize_none k query_dict =
     (if map_of query_dict k = None \<or> map_of query_dict k = Some JNull
      then AList.update k (JArr []) query_dict
      else query_dict)"

text \<open>The \<open>try\<close> block of the query agent. A reply that is JSON but not an object has no
  \<open>get\<close>, which raises too.\<close>

definition parse_query :: "agents \<Rightarrow> string \<Rightarrow> query_understanding option" where
  "parse_query a raw =
     (case json_loads a (unwrap_markdown a raw) of
        None \<Rightarrow> None
      | Some (JObj query_dict) \<Rightarrow>
          validate_QueryUnderstanding a
            (JObj (sanitize_none ''clarifying_questions''
                    (sanitize_none ''needed_context_from_memory''
                      (sanitize_none ''possible_interpretations'' query_dict))))
      | Some _ \<Rightarrow> None)"

definition fallback_understanding :: "string \<Rightarrow> string \<Rightarrow> query_understanding" where
  "fallback_understanding query recent =
     \<lparr>original_query = query, is_ambiguous = False, rewritten_query = None,
      possible_interpretations = [], needed_context_from_memory = [],
      clarifying_questions = [], final_augmented_context = recent\<rparr>"

definition query_agent :: "agents \<Rightarrow> state \<Rightarrow> state io" where
  "query_agent a st =
     (if user_query st = [] then return_io st
      else
        bind_io (get_recent_messages a (session_id st) 10) (\<lambda>recent_messages.
        let recent = recent_context recent_messages in
        bind_io (get_latest_summary a (session_id st)) (\<lambda>summary.
        bind_io (invoke a Structured
                   [SystemMessage (query_system_prompt a),
                    HumanMessage (query_human_prompt recent (summary_context summary)
                                    (user_query st))])
          (\<lambda>response.
        let understanding = (case parse_query a response of
                               Some q \<Rightarrow> q
                             | None \<Rightarrow> fallback_understanding (user_query st) recent)
        in return_io (st\<lparr>st_query_understanding := Some understanding\<rparr>)))))"

subsection \<open>Response agent\<close>

definition response_system_prompt :: string where
  "response_system_prompt =
     ''You are a helpful AI assistant.'' @ nl
     @ ''Use the provided context to give accurate and relevant responses.'' @ nl
     @ ''Respond naturally in the same language as the user's query.'' @ nl
     @ ''If there are multiple interpretations (possible_interpretations):'' @ nl
     @ ''1. Acknowledge the ambiguity'' @ nl
     @ ''2. List numbered options'' @ nl
     @ ''3. Suggest approaches for each'' @ nl
     @ ''4. Let user choose or provide more info''"

definition response_human_prompt :: "query_understanding \<Rightarrow> string" where
  "response_human_prompt qu =
     (let effective_query = (case rewritten_query qu of
                               None \<Rightarrow> original_query qu
                             | Some r \<Rightarrow> (if r = [] then original_query qu else r));
          context = final_augmented_context qu;
          has_multiple_interpretations = (length (possible_interpretations qu) > 1)
      in if has_multiple_interpretations
         then ''Context:'' @ nl
              @ context @ nl
              @ nl
              @ ''User query: '' @ effective_query @ nl
              @ nl
              @ ''This query has multiple possible interpretations:'' @ nl
              @ join nl (enumerate_lines 0 (possible_interpretations qu)) @ nl
              @ nl
              @ ''Provide a helpful response that:'' @ nl
              @ ''1. Acknowledges these different interpretations'' @ nl
              @ ''2. Gives brief guidance for each option'' @ nl
              @ ''3. Asks user which specific aspect they want to focus on''
         else ''Context:'' @ nl
              @ context @ nl
              @ nl
              @ ''User query: '' @ effective_query @ nl
              @ nl
              @ ''Provide a helpful response.'')"

text \<open>\<open>not query_understanding.rewritten_query\<close>: absent or the empty string.\<close>

definition falsy :: "string option \<Rightarrow> bool" where
  "falsy s = (case s of None \<Rightarrow> True | Some t \<Rightarrow> t = [])"

definition response_agent :: "agents \<Rightarrow> state \<Rightarrow> state io" where
  "response_agent a st =
     (case st_query_understanding st of
        None \<Rightarrow> return_io (st\<lparr>final_response := ''I need a query to respond to.''\<rparr>)
      | Some qu \<Rightarrow>
          (if is_ambiguous qu \<and> falsy (rewritten_query qu) \<and> clarifying_questions qu \<noteq> []
           then
             (let questions = join nl (enumerate_lines 0 (clarifying_questions qu))
              in return_io (st\<lparr>final_response :=
                                 ''I need some clarification:'' @ nl @ nl @ questions\<rparr>))
           else
             bind_io (invoke a Normal
                        [SystemMessage response_system_prompt,
                         HumanMessage (response_human_prompt qu)])
               (\<lambda>response. return_io (st\<lparr>final_response := response\<rparr>))))"

section \<open>The graph (\<open>graph.py\<close>)\<close>

datatype node = Summarizer_agent | Query_agent

definition should_summarize :: "state \<Rightarrow> node" where
  "should_summarize st = (if needs_summarization st then Summarizer_agent else Query_agent)"

definition initial_state :: "string \<Rightarrow> string \<Rightarrow> state" where
  "initial_state sid query =
     \<lparr>session_id = sid, user_query = query, messages = [], total_tokens = 0,
      needs_summarization = False, st_session_summary = None,
      st_query_understanding = None, final_response = []\<rparr>"

text \<open>\<open>ConversationGraph.run\<close>: context agent, then the summarizer when the conditional
  edge says so, then the query agent, then the response agent.\<close>

definition run :: "agents \<Rightarrow> instant \<Rightarrow> string \<Rightarrow> string \<Rightarrow> state io" where
  "run a now sid query =
     bind_io (context_agent a (initial_state sid query)) (\<lambda>s1.
     bind_io (case should_summarize s1 of
                Summarizer_agent \<Rightarrow> summarizer_agent a now s1
              | Query_agent \<Rightarrow> return_io s1) (\<lambda>s2.
     bind_io (query_agent a s2) (\<lambda>s3.
     response_agent a s3)))"

section \<open>Notions used to state the properties\<close>

text \<open>Storage that never raises.\<close>

definition reliable_storage :: "agents \<Rightarrow> bool" where
  "reliable_storage a = (\<forall>n. \<not> storage_raises a n)"

text \<open>The live token count in the specification's words: over the session's rows that are not
  archived, the tokens of the content plus the tokens of the role label plus 4.\<close>

definition live_tokens :: "agents \<Rightarrow> database \<Rightarrow> string \<Rightarrow> int" where
  "live_tokens a d sid =
     (\<Sum>r\<leftarrow>filter (\<lambda>r. row_session r = sid \<and> \<not> is_summarized r) (messages_tbl d).
        int (count_tokens a (content (row_msg r))) + int (count_tokens a (role (row_msg r))) + 4)"

text \<open>The full ordered log of a session, archived rows included: the positions that a
  message range refers to.\<close>

definition session_log :: "database \<Rightarrow> string \<Rightarrow> msg_row list" where
  "session_log d sid = order_by_timestamp (filter (\<lambda>r. row_session r = sid) (messages_tbl d))"

text \<open>What the \<open>UPDATE\<close> does to one row, given the selected ids.\<close>

definition flag_rows :: "string \<Rightarrow> nat set \<Rightarrow> msg_row \<Rightarrow> msg_row" where
  "flag_rows sid ids r =
     (if row_session r = sid \<and> row_id r \<in> ids then r\<lparr>is_summarized := True\<rparr> else r)"

text \<open>The store after both statements of \<open>save_summary\<close>.\<close>

definition compacted :: "string \<Rightarrow> session_memory_output \<Rightarrow> database \<Rightarrow> database" where
  "compacted sid s d =
     snd (update_summarized sid (from_index (message_range_summarized s))
            (to_index (message_range_summarized s)) (snd (insert_summary sid s d)))"

text \<open>The prompt the summarizer sends, and the output it builds from the reply \<open>resp\<close>.\<close>

definition summarizer_prompt :: "agents \<Rightarrow> database \<Rightarrow> state \<Rightarrow> chat_message list" where
  "summarizer_prompt a d st =
     [SystemMessage (summarizer_system_prompt a),
      HumanMessage (summarizer_human_prompt (select_latest_summary d (session_id st))
                      (messages st))]"

definition summarizer_output ::
  "agents \<Rightarrow> instant \<Rightarrow> database \<Rightarrow> state \<Rightarrow> string \<Rightarrow> session_memory_output" where
  "summarizer_output a now d st resp =
     \<lparr>session_summary = (case parse_summary a resp of Some s \<Rightarrow> s | None \<Rightarrow> empty_summary),
      message_range_summarized =
        \<lparr>from_index = int (length (session_log d (session_id st))) - int (length (messages st)),
         to_index = int (length (session_log d (session_id st))) - 1\<rparr>,
      smo_timestamp = now\<rparr>"

text \<open>The text of the hard stop and the prompt of the best-effort branch.\<close>

definition clarification :: "query_understanding \<Rightarrow> string" where
  "clarification qu = ''I need some clarification:'' @ nl @ nl @ join nl (enumerate_lines 0 (clarifying_questions qu))"

definition response_prompt :: "query_understanding \<Rightarrow> chat_message list" where
  "response_prompt qu = [SystemMessage response_system_prompt, HumanMessage (response_human_prompt qu)]"

text \<open>The recent-window text and the prompt the query agent sends.\<close>

definition recent_window_text :: "database \<Rightarrow> string \<Rightarrow> string" where
  "recent_window_text d sid = recent_context (map row_msg (select_recent d sid 10))"

definition query_prompt :: "agents \<Rightarrow> database \<Rightarrow> state \<Rightarrow> chat_message list" where
  "query_prompt a d st =
     [SystemMessage (query_system_prompt a),
      HumanMessage (query_human_prompt (recent_window_text d (session_id st))
                      (summary_context (select_latest_summary d (session_id st)))
                      (user_query st))]"

text \<open>The state the context agent returns when storage does not fail.\<close>

definition context_state :: "agents \<Rightarrow> database \<Rightarrow> string \<Rightarrow> string \<Rightarrow> state" where
  "context_state a d sid query =
     (initial_state sid query)
       \<lparr>messages := map row_msg (select_messages d sid None True),
        total_tokens := live_tokens a d sid,
        needs_summarization := (token_threshold a < live_tokens a d sid)\<rparr>"

text \<open>A generation service that never raises.\<close>

definition service_answers :: "agents \<Rightarrow> bool" where
  "service_answers a = (\<forall>kind history prompt. \<exists>text. llm_invoke a kind history prompt = Inr text)"


text \<open>The store with its archived message rows removed.\<close>

definition without_archived :: "database \<Rightarrow> database" where
  "without_archived d = d\<lparr>messages_tbl := filter (\<lambda>r. \<not> is_summarized r) (messages_tbl d)\<rparr>"


text \<open>
  The messages of a log whose index lies in \<open>[f, t]\<close>, and the store \<open>d'\<close> that differs
  from \<open>d\<close> by exactly one compaction: one more summary row, holding \<open>s\<close> for the session,
  and the archived flag set on exactly the messages of the session's log with an index in
  the range of \<open>s\<close>.
\<close>

definition in_range :: "msg_row list \<Rightarrow> int \<Rightarrow> int \<Rightarrow> msg_row \<Rightarrow> bool" where
  "in_range log f t r = (\<exists>i<length log. f \<le> int i \<and> int i \<le> t \<and> log ! i = r)"

definition both_written :: "database \<Rightarrow> string \<Rightarrow> session_memory_output \<Rightarrow> database \<Rightarrow> bool" where
  "both_written d sid s d' =
     ((\<exists>row. session_summaries_tbl d' = session_summaries_tbl d @ [row]
             \<and> summary_session row = sid \<and> output_of_row row = s)
      \<and> messages_tbl d' =
          map (\<lambda>r. if in_range (session_log d sid) (from_index (message_range_summarized s))
                         (to_index (message_range_summarized s)) r
                    then r\<lparr>is_summarized := True\<rparr> else r)
            (messages_tbl d))"


subsection \<open>A session's history\<close>

text \<open>
  What happens to the store, one event after the other: a message is saved, or a turn of
  the graph runs; \<open>now\<close> is the clock reading of the turn's summarizer. The result of an
  event is dropped and the world it leaves is handed to the next event, whether the event
  returned or raised.
\<close>

datatype event = Save string message | Turn string string instant

fun step :: "agents \<Rightarrow> event \<Rightarrow> world \<Rightarrow> world" where
  "step a (Save sid m) w = snd (save_message a sid m w)"
| "step a (Turn sid query now) w = snd (run a now sid query w)"

fun run_events :: "agents \<Rightarrow> event list \<Rightarrow> world \<Rightarrow> world" where
  "run_events a [] w = w"
| "run_events a (e # es) w = run_events a es (step a e w)"

definition init_world :: world where
  "init_world = \<lparr>store = empty_database, llm_calls = [], steps = 0\<rparr>"

text \<open>The timestamps of the messages saved for a session, and the clock readings of the
  session's turns, each in the order of the events.\<close>

fun saved_times :: "string \<Rightarrow> event list \<Rightarrow> instant list" where
  "saved_times sid [] = []"
| "saved_times sid (Save sid' m # es) =
     (if sid' = sid then timestamp m # saved_times sid es else saved_times sid es)"
| "saved_times sid (Turn sid' query now # es) = saved_times sid es"

fun turn_times :: "string \<Rightarrow> event list \<Rightarrow> instant list" where
  "turn_times sid [] = []"
| "turn_times sid (Save sid' m # es) = turn_times sid es"
| "turn_times sid (Turn sid' query now # es) =
     (if sid' = sid then now # turn_times sid es else turn_times sid es)"

text \<open>Consecutive summaries cover adjacent ranges.\<close>

fun contiguous :: "session_memory_output list \<Rightarrow> bool" where
  "contiguous [] = True"
| "contiguous [x] = True"
| "contiguous (x # y # zs) =
     (from_index (message_range_summarized y) = to_index (message_range_summarized x) + 1
      \<and> contiguous (y # zs))"

text \<open>
  A session's rows of both tables in the order they were persisted, and the invariant of a
  session whose messages are saved with timestamps that never decrease: the messages are
  sorted by timestamp, the summaries are contiguous in the order they were persisted, the
  archived messages are a prefix of the log, and the last summary ends where the archived
  prefix ends.
\<close>

definition session_rows :: "database \<Rightarrow> string \<Rightarrow> msg_row list" where
  "session_rows d sid = filter (\<lambda>r. row_session r = sid) (messages_tbl d)"

definition session_sums :: "database \<Rightarrow> string \<Rightarrow> summary_row list" where
  "session_sums d sid = filter (\<lambda>r. summary_session r = sid) (session_summaries_tbl d)"

definition stream_inv :: "string \<Rightarrow> database \<Rightarrow> bool" where
  "stream_inv sid d =
     (sorted (map (\<lambda>r. timestamp (row_msg r)) (session_rows d sid))
      \<and> contiguous (map output_of_row (session_sums d sid))
      \<and> (\<exists>A U. session_rows d sid = A @ U
             \<and> (\<forall>r\<in>set A. is_summarized r) \<and> (\<forall>r\<in>set U. \<not> is_summarized r)
             \<and> (session_sums d sid \<noteq> []
                  \<longrightarrow> to_message_index (last (session_sums d sid)) + 1 = int (length A))))"

text \<open>Every message of the session is stamped no later than \<open>t\<close>; every summary of the
  session is stamped before \<open>t\<close>.\<close>

definition messages_le :: "string \<Rightarrow> database \<Rightarrow> instant \<Rightarrow> bool" where
  "messages_le sid d t = (\<forall>r\<in>set (session_rows d sid). timestamp (row_msg r) \<le> t)"

definition summaries_lt :: "string \<Rightarrow> database \<Rightarrow> instant \<Rightarrow> bool" where
  "summaries_lt sid d t = (\<forall>r\<in>set (session_sums d sid). summary_timestamp r < t)"

subsection \<open>Concrete collaborators and stores for the examples\<close>

definition ex_message :: "string \<Rightarrow> string \<Rightarrow> instant \<Rightarrow> message" where
  "ex_message r c t =
     \<lparr>role = r, content = c, timestamp = t, token_count = None, metadata = None\<rparr>"

definition ex_row :: "nat \<Rightarrow> string \<Rightarrow> message \<Rightarrow> bool \<Rightarrow> msg_row" where
  "ex_row i sid m z = \<lparr>row_id = i, row_session = sid, row_msg = m, is_summarized = z\<rparr>"

text \<open>A tokenizer that counts characters, a generation service whose \<open>n\<close>-th call answers
  \<open>reply n\<close>, a JSON reader that knows the empty object only, and schema constructors that
  reject everything.\<close>

definition ex_agents :: "int \<Rightarrow> (nat \<Rightarrow> error + string) \<Rightarrow> (nat \<Rightarrow> bool) \<Rightarrow> agents" where
  "ex_agents threshold reply faults =
     \<lparr>token_threshold = threshold, count_tokens = length, str_strip = ascii_strip,
      llm_invoke = (\<lambda>kind history prompt. reply (length history)),
      json_loads = (\<lambda>s. if s = ''{}'' then Some (JObj []) else None),
      validate_SessionSummary = (\<lambda>j. None),
      validate_QueryUnderstanding = (\<lambda>j. None),
      storage_raises = faults,
      summarizer_system_prompt = ''summarize'',
      query_system_prompt = ''understand''\<rparr>"

definition ex_world :: "msg_row list \<Rightarrow> world" where
  "ex_world rows =
     \<lparr>store = \<lparr>messages_tbl = rows, session_summaries_tbl = []\<rparr>, llm_calls = [], steps = 0\<rparr>"

definition ex_rows :: "msg_row list" where
  "ex_rows = [ex_row 1 ''s'' (ex_message ''user'' ''old'' 1) True,
              ex_row 2 ''s'' (ex_message ''user'' ''hello'' 2) False]"

text \<open>The state the context agent hands on for \<open>ex_rows\<close>.\<close>

definition ex_state :: state where
  "ex_state = (initial_state ''s'' ''q'')\<lparr>messages := [ex_message ''user'' ''hello'' 2],
                 total_tokens := 13, needs_summarization := True\<rparr>"

text \<open>A query understanding that is ambiguous, has no rewritten query and asks one question.\<close>

definition ex_cryptic :: query_understanding where
  "ex_cryptic =
     \<lparr>original_query = ''asdkjh'', is_ambiguous = True, rewritten_query = None,
      possible_interpretations = [], needed_context_from_memory = [],
      clarifying_questions = [''What?''], final_augmented_context = []\<rparr>"

definition ex_output :: session_memory_output where
  "ex_output = \<lparr>session_summary = empty_summary,
                message_range_summarized = \<lparr>from_index = 1, to_index = 1\<rparr>,
                smo_timestamp = 5\<rparr>"


text \<open>Three histories of session \<open>s\<close>. In the first the second message carries a timestamp
  older than the first one's. In the second the messages' timestamps follow the order of
  storage and the turns' clocks increase, though a turn's clock is behind the messages'. In
  the third both turns read the same clock.\<close>

definition ex_stale_events :: "event list" where
  "ex_stale_events =
     [Save ''s'' (ex_message ''user'' ''a'' 10), Turn ''s'' ''q'' 11,
      Save ''s'' (ex_message ''user'' ''b'' 5), Turn ''s'' ''q'' 12, Turn ''s'' ''q'' 13]"

definition ex_events :: "event list" where
  "ex_events =
     [Save ''s'' (ex_message ''user'' ''a'' 10), Turn ''s'' ''q'' 5,
      Save ''s'' (ex_message ''user'' ''b'' 12), Turn ''s'' ''q'' 6]"

definition ex_tied_events :: "event list" where
  "ex_tied_events =
     [Save ''s'' (ex_message ''user'' ''a'' 10), Turn ''s'' ''q'' 20,
      Save ''s'' (ex_message ''user'' ''b'' 20), Turn ''s'' ''q'' 20]"


definition ex_eager :: agents where
  "ex_eager = ex_agents 0 (\<lambda>n. Inr ''{}'') (\<lambda>n. False)"

section \<open>Properties\<close>

lemmas ex_defs = ex_message_def ex_row_def ex_agents_def ex_world_def ex_rows_def ex_state_def

lemmas io_defs = get_connection_def execute_def bind_io_def return_io_def raise_io_def

lemmas query_defs = get_messages_def select_messages_def order_by_timestamp_def
  sql_limit_def sql_offset_def

subsection \<open>Storage steps\<close>

lemma sum_list_insort_key:
  "sum_list (map f (insort_key k x xs)) = (f x :: int) + sum_list (map f xs)"
  by (induction xs) auto

lemma sum_list_sort_key:
  "sum_list (map f (sort_key k xs)) = (sum_list (map f xs) :: int)"
  by (induction xs) (auto simp: sum_list_insort_key)

lemma read_outcome:
  assumes "get_connection a (execute a (\<lambda>d. (q d, d))) w = (r, w')"
  shows "store w' = store w \<and> llm_calls w' = llm_calls w
         \<and> (r = Inl StorageError \<or> r = Inr (q (store w)))"
  using assms by (auto simp: get_connection_def execute_def split: if_splits)

lemma write_outcome:
  assumes "get_connection a (execute a stmt) w = (r, w')"
  shows "llm_calls w' = llm_calls w \<and>
         ((r = Inl StorageError \<and> store w' = store w) \<or>
          (r = Inr (fst (stmt (store w))) \<and> store w' = snd (stmt (store w))))"
  using assms by (auto simp: get_connection_def execute_def split: if_splits prod.splits)

lemma reliable_transaction:
  assumes "reliable_storage a"
  shows "get_connection a (execute a stmt) w =
           (Inr (fst (stmt (store w))),
            w\<lparr>store := snd (stmt (store w)), steps := Suc (Suc (steps w))\<rparr>)"
  using assms
  by (auto simp: reliable_storage_def get_connection_def execute_def split: prod.splits)

lemma bind_io_Inr:
  "bind_io m f w = (Inr v, w') \<Longrightarrow> \<exists>u w1. m w = (Inr u, w1) \<and> f u w1 = (Inr v, w')"
  by (auto simp: bind_io_def split: prod.splits sum.splits)

subsection \<open>The compaction trigger\<close>

text \<open>
  C1. Whenever the context agent returns, the total it computed is the sum, over the
  session's non-archived messages, of content tokens plus role tokens plus 4, and it asks for
  summarization (and the graph's conditional edge goes to the summarizer) exactly when that
  sum is strictly greater than the configured threshold; so a sum equal to the threshold
  does not trigger compaction.
\<close>

theorem context_agent_threshold:
  assumes "context_agent a st w = (Inr st', w')"
  shows "total_tokens st' = live_tokens a (store w) (session_id st)
       \<and> (needs_summarization st' \<longleftrightarrow> live_tokens a (store w) (session_id st) > token_threshold a)
       \<and> (should_summarize st' = Summarizer_agent
            \<longleftrightarrow> live_tokens a (store w) (session_id st) > token_threshold a)"
proof -
  from assms obtain msgs w1 where
    g: "get_messages a (session_id st) None True w = (Inr msgs, w1)" and
    r: "st' = st\<lparr>messages := msgs,
                 total_tokens := sum_list (map (count_message_tokens a) msgs),
                 needs_summarization :=
                   (sum_list (map (count_message_tokens a) msgs) > token_threshold a)\<rparr>"
    unfolding context_agent_def
    by (auto dest!: bind_io_Inr simp: return_io_def Let_def)
  from g have m: "msgs = map row_msg (select_messages (store w) (session_id st) None True)"
    unfolding get_messages_def by (auto dest!: read_outcome)
  have "sum_list (map (count_message_tokens a) msgs) = live_tokens a (store w) (session_id st)"
    unfolding m live_tokens_def select_messages_def order_by_timestamp_def
    by (simp add: comp_def sum_list_sort_key count_message_tokens_def)
  with r show ?thesis by (simp add: should_summarize_def)
qed

theorem context_agent_threshold_witness:
  "context_agent (ex_agents 12 (\<lambda>n. Inr []) (\<lambda>n. False)) (initial_state ''s'' ''q'')
      (ex_world [ex_row 1 ''s'' (ex_message ''user'' ''old'' 1) True,
                 ex_row 2 ''s'' (ex_message ''user'' ''hello'' 2) False])
   = (Inr ((initial_state ''s'' ''q'')\<lparr>messages := [ex_message ''user'' ''hello'' 2],
             total_tokens := 13, needs_summarization := True\<rparr>),
      (ex_world [ex_row 1 ''s'' (ex_message ''user'' ''old'' 1) True,
                 ex_row 2 ''s'' (ex_message ''user'' ''hello'' 2) False])\<lparr>steps := 2\<rparr>)
   \<and> live_tokens (ex_agents 12 (\<lambda>n. Inr []) (\<lambda>n. False))
        (store (ex_world [ex_row 1 ''s'' (ex_message ''user'' ''old'' 1) True,
                          ex_row 2 ''s'' (ex_message ''user'' ''hello'' 2) False])) ''s'' = 13"
proof -
  have h: "context_agent (ex_agents 12 (\<lambda>n. Inr []) (\<lambda>n. False)) (initial_state ''s'' ''q'')
      (ex_world [ex_row 1 ''s'' (ex_message ''user'' ''old'' 1) True,
                 ex_row 2 ''s'' (ex_message ''user'' ''hello'' 2) False])
   = (Inr ((initial_state ''s'' ''q'')\<lparr>messages := [ex_message ''user'' ''hello'' 2],
             total_tokens := 13, needs_summarization := True\<rparr>),
      (ex_world [ex_row 1 ''s'' (ex_message ''user'' ''old'' 1) True,
                 ex_row 2 ''s'' (ex_message ''user'' ''hello'' 2) False])\<lparr>steps := 2\<rparr>)"
    by (simp add: context_agent_def io_defs query_defs ex_defs initial_state_def
          count_message_tokens_def)
  from context_agent_threshold [OF h] show ?thesis
    using h by (simp add: initial_state_def)
qed

subsection \<open>The summarizer\<close>

lemma save_summary_outcome:
  assumes "save_summary a sid s w = (r, w')"
  shows "llm_calls w' = llm_calls w \<and>
         ((r = Inl StorageError \<and> store w' = store w) \<or>
          (r = Inr (fst (insert_summary sid s (store w))) \<and>
           store w' = snd (update_summarized sid (from_index (message_range_summarized s))
                            (to_index (message_range_summarized s))
                            (snd (insert_summary sid s (store w))))))"
  using assms
  by (auto simp: save_summary_def get_connection_def execute_def bind_io_def return_io_def
           split: if_splits prod.splits sum.splits)

lemma insort_key_map_commute:
  assumes "\<And>x. k (g x) = k x"
  shows "insort_key k (g x) (map g xs) = map g (insort_key k x xs)"
  using assms by (induction xs) auto

lemma sort_key_map_commute:
  assumes "\<And>x. k (g x) = k x"
  shows "sort_key k (map g xs) = map g (sort_key k xs)"
  using assms by (induction xs) (auto simp: insort_key_map_commute)

lemma flag_rows_simps [simp]:
  "row_session (flag_rows sid ids r) = row_session r"
  "row_id (flag_rows sid ids r) = row_id r"
  "row_msg (flag_rows sid ids r) = row_msg r"
  by (simp_all add: flag_rows_def)

lemma messages_update_summarized:
  "messages_tbl (snd (update_summarized sid f t d)) =
     map (flag_rows sid (set (range_ids d sid f t))) (messages_tbl d)"
  "session_summaries_tbl (snd (update_summarized sid f t d)) = session_summaries_tbl d"
  by (simp_all add: update_summarized_def flag_rows_def Let_def)

lemma session_log_flagged:
  "order_by_timestamp (filter (\<lambda>r. row_session r = sid') (map (flag_rows sid ids) rows)) =
     map (flag_rows sid ids) (order_by_timestamp (filter (\<lambda>r. row_session r = sid') rows))"
  unfolding order_by_timestamp_def
  by (simp add: filter_map comp_def sort_key_map_commute)

lemma range_ids_update [simp]:
  "range_ids (snd (update_summarized sid f t d)) sid' f' t' = range_ids d sid' f' t'"
  unfolding range_ids_def messages_update_summarized session_log_flagged
  by (simp add: sql_limit_def sql_offset_def take_map drop_map comp_def)

lemma update_summarized_idem:
  "snd (update_summarized sid f t (snd (update_summarized sid f t d))) = snd (update_summarized sid f t d)"
proof -
  have "messages_tbl (snd (update_summarized sid f t (snd (update_summarized sid f t d))))
        = messages_tbl (snd (update_summarized sid f t d))"
    by (simp add: messages_update_summarized flag_rows_def)
  moreover have "session_summaries_tbl (snd (update_summarized sid f t (snd (update_summarized sid f t d))))
        = session_summaries_tbl (snd (update_summarized sid f t d))"
    by (simp add: messages_update_summarized)
  ultimately show ?thesis by simp
qed

lemma select_all_is_log: "select_messages d sid None False = session_log d sid"
  by (simp add: select_messages_def session_log_def)

lemma invoke_outcome:
  "invoke a k p w = (r, w') \<Longrightarrow>
     r = llm_invoke a k (llm_calls w) p \<and> w' = w\<lparr>llm_calls := llm_calls w @ [(k, p)]\<rparr>"
  by (auto simp: invoke_def Let_def split: sum.splits)

lemma summarizer_success:
  assumes "summarizer_agent a now st w = (Inr st', w')" and "messages st \<noteq> []"
  shows "\<exists>resp.
      llm_invoke a Structured (llm_calls w) (summarizer_prompt a (store w) st) = Inr resp
      \<and> llm_calls w' = llm_calls w @ [(Structured, summarizer_prompt a (store w) st)]
      \<and> int (length (messages st)) \<le> int (length (session_log (store w) (session_id st)))
      \<and> st' = st\<lparr>st_session_summary := Some (summarizer_output a now (store w) st resp),
                  needs_summarization := False\<rparr>
      \<and> store w' = compacted (session_id st) (summarizer_output a now (store w) st resp) (store w)"
proof -
  from assms obtain prev w1 resp w2 alls w3 range w4 i w5 where
    p: "get_latest_summary a (session_id st) w = (Inr prev, w1)" and
    l: "invoke a Structured [SystemMessage (summarizer_system_prompt a),
                    HumanMessage (summarizer_human_prompt prev (messages st))] w1 = (Inr resp, w2)" and
    g: "get_messages a (session_id st) None False w2 = (Inr alls, w3)" and
    v: "make_MessageRange (int (length alls) - int (length (messages st))) (int (length alls) - 1) w3 = (Inr range, w4)" and
    s: "save_summary a (session_id st) \<lparr>session_summary = (case parse_summary a resp of Some s \<Rightarrow> s | None \<Rightarrow> empty_summary), message_range_summarized = range, smo_timestamp = now\<rparr> w4 = (Inr i, w5)" and
    m: "mark_messages_as_summarized a (session_id st) (int (length alls) - int (length (messages st))) (int (length alls) - 1) w5 = (Inr (), w')" and
    r: "st' = st\<lparr>st_session_summary := Some \<lparr>session_summary = (case parse_summary a resp of Some s \<Rightarrow> s | None \<Rightarrow> empty_summary), message_range_summarized = range, smo_timestamp = now\<rparr>, needs_summarization := False\<rparr>"
    unfolding summarizer_agent_def Let_def
    by (auto dest!: bind_io_Inr simp: return_io_def)
  from p have s1: "store w1 = store w" "llm_calls w1 = llm_calls w"
    and pv: "prev = select_latest_summary (store w) (session_id st)"
    unfolding get_latest_summary_def by (auto dest!: read_outcome)
  from l have s2: "store w2 = store w1" "llm_calls w2 = llm_calls w1 @ [(Structured, summarizer_prompt a (store w) st)]"
    and lr: "llm_invoke a Structured (llm_calls w) (summarizer_prompt a (store w) st) = Inr resp"
    using invoke_outcome [OF l] by (simp_all add: summarizer_prompt_def pv s1)
  from g have s3: "store w3 = store w2" "llm_calls w3 = llm_calls w2"
    and a: "alls = map row_msg (session_log (store w2) (session_id st))"
    unfolding get_messages_def select_all_is_log [symmetric] by (auto dest!: read_outcome)
  from v have b: "0 \<le> int (length alls) - int (length (messages st))"
    and rg: "range = \<lparr>from_index = int (length alls) - int (length (messages st)),
                        to_index = int (length alls) - 1\<rparr>"
    and s4: "w4 = w3"
    by (auto simp: make_MessageRange_def raise_io_def return_io_def split: if_splits)
  have out: "\<lparr>session_summary = (case parse_summary a resp of Some s \<Rightarrow> s | None \<Rightarrow> empty_summary),
        message_range_summarized = range, smo_timestamp = now\<rparr> = summarizer_output a now (store w) st resp"
    unfolding summarizer_output_def rg a s2 s1 by simp
  from s have s5: "store w5 = compacted (session_id st) (summarizer_output a now (store w) st resp) (store w4)"
    "llm_calls w5 = llm_calls w4"
    unfolding out by (auto dest!: save_summary_outcome simp: compacted_def)
  from m have s6: "store w' = snd (update_summarized (session_id st)
        (int (length alls) - int (length (messages st))) (int (length alls) - 1) (store w5))"
    "llm_calls w' = llm_calls w5"
    unfolding mark_messages_as_summarized_def by (auto dest!: write_outcome)
  have s7: "store w' = store w5"
    unfolding s6 s5 compacted_def a s2 s1 summarizer_output_def by (simp add: update_summarized_idem)
  show ?thesis
    apply (rule exI [of _ resp])
    using b r lr unfolding out s7 s6 s5 s4 s3 s2 s1 a by simp
qed

lemma session_summaries_compacted:
  "session_summaries_tbl (compacted sid s d) = session_summaries_tbl d @
     [\<lparr>summary_id = next_id (map summary_id (session_summaries_tbl d)), summary_session = sid,
       summary_json = session_summary s,
       from_message_index = from_index (message_range_summarized s),
       to_message_index = to_index (message_range_summarized s),
       summary_timestamp = smo_timestamp s\<rparr>]"
  by (simp add: compacted_def messages_update_summarized insert_summary_def Let_def)

lemma save_summary_reliable:
  assumes "reliable_storage a"
  shows "save_summary a sid s w =
           (Inr (fst (insert_summary sid s (store w))),
            w\<lparr>store := compacted sid s (store w), steps := Suc (Suc (Suc (steps w)))\<rparr>)"
  using assms
  by (auto simp: reliable_storage_def save_summary_def compacted_def get_connection_def
        execute_def bind_io_def return_io_def split: prod.splits)

lemma compacted_twice:
  "snd (update_summarized sid (from_index (message_range_summarized s))
          (to_index (message_range_summarized s)) (compacted sid s d)) = compacted sid s d"
  by (simp add: compacted_def update_summarized_idem)

lemma summarizer_agent_reliable:
  assumes rel: "reliable_storage a" and ne: "messages st \<noteq> []"
    and llm: "llm_invoke a Structured (llm_calls w) (summarizer_prompt a (store w) st) = Inr resp"
    and le: "length (messages st) \<le> length (session_log (store w) (session_id st))"
  shows "summarizer_agent a now st w =
           (Inr (st\<lparr>st_session_summary := Some (summarizer_output a now (store w) st resp),
                    needs_summarization := False\<rparr>),
            w\<lparr>store := compacted (session_id st) (summarizer_output a now (store w) st resp) (store w),
              llm_calls := llm_calls w @ [(Structured, summarizer_prompt a (store w) st)],
              steps := steps w + 9\<rparr>)"
proof -
  from ne le have pos: "0 < length (session_log (store w) (session_id st))" by (cases "messages st") auto
  have rng: "(from_index (message_range_summarized (summarizer_output a now (store w) st resp))) = int (length (session_log (store w) (session_id st))) - int (length (messages st))"
       "(to_index (message_range_summarized (summarizer_output a now (store w) st resp))) = int (length (session_log (store w) (session_id st))) - 1"
    by (simp_all add: summarizer_output_def)
  have out: "\<lparr>session_summary = (case parse_summary a resp of Some s \<Rightarrow> s | None \<Rightarrow> empty_summary),
      message_range_summarized =
        \<lparr>from_index = int (length (session_log (store w) (session_id st))) - int (length (messages st)),
         to_index = int (length (session_log (store w) (session_id st))) - 1\<rparr>,
      smo_timestamp = now\<rparr> = summarizer_output a now (store w) st resp"
    by (simp add: summarizer_output_def)
  have twice: "snd (update_summarized (session_id st) (int (length (session_log (store w) (session_id st))) - int (length (messages st)))
            (int (length (session_log (store w) (session_id st))) - 1) (compacted (session_id st) (summarizer_output a now (store w) st resp) (store w)))
       = compacted (session_id st) (summarizer_output a now (store w) st resp) (store w)"
    using compacted_twice [of "session_id st" "summarizer_output a now (store w) st resp" "store w"]
    unfolding rng .
  show ?thesis
    unfolding summarizer_agent_def get_latest_summary_def get_messages_def
      mark_messages_as_summarized_def
    using ne le pos llm
    by (simp add: reliable_transaction [OF rel] save_summary_reliable [OF rel] bind_io_def
          return_io_def invoke_def Let_def make_MessageRange_def select_all_is_log
          summarizer_prompt_def [symmetric] out twice)
qed

subsection \<open>The pipeline when storage is reliable\<close>

lemma live_tokens_select:
  "sum_list (map (count_message_tokens a) (map row_msg (select_messages d sid None True)))
     = live_tokens a d sid"
  unfolding live_tokens_def select_messages_def order_by_timestamp_def
  by (simp add: comp_def sum_list_sort_key count_message_tokens_def)

lemma context_agent_reliable:
  assumes "reliable_storage a"
  shows "context_agent a (initial_state sid query) w =
           (Inr (context_state a (store w) sid query), w\<lparr>steps := steps w + 2\<rparr>)"
  unfolding context_agent_def get_messages_def
  using live_tokens_select [of a "store w" sid]
  by (simp add: reliable_transaction [OF assms] bind_io_def return_io_def Let_def
        context_state_def initial_state_def)

lemma query_agent_reliable:
  assumes rel: "reliable_storage a" and ne: "user_query st \<noteq> []"
  shows "query_agent a st w =
           (case llm_invoke a Structured (llm_calls w) (query_prompt a (store w) st) of
              Inl err \<Rightarrow> (Inl err, w\<lparr>llm_calls := llm_calls w @ [(Structured, query_prompt a (store w) st)],
                                    steps := steps w + 4\<rparr>)
            | Inr resp \<Rightarrow>
                (Inr (st\<lparr>st_query_understanding :=
                          Some (case parse_query a resp of
                                  Some q \<Rightarrow> q
                                | None \<Rightarrow> fallback_understanding (user_query st)
                                            (recent_window_text (store w) (session_id st)))\<rparr>),
                 w\<lparr>llm_calls := llm_calls w @ [(Structured, query_prompt a (store w) st)],
                   steps := steps w + 4\<rparr>))"
  unfolding query_agent_def get_recent_messages_def get_latest_summary_def
    query_prompt_def recent_window_text_def
  using ne
  by (simp add: reliable_transaction [OF rel] bind_io_def return_io_def invoke_def Let_def
        split: sum.splits)


lemma response_agent_generates:
  assumes "st_query_understanding st = Some qu"
    and "\<not> (is_ambiguous qu \<and> falsy (rewritten_query qu) \<and> clarifying_questions qu \<noteq> [])"
  shows "response_agent a st w =
           (case llm_invoke a Normal (llm_calls w) (response_prompt qu) of
              Inl err \<Rightarrow> (Inl err, w\<lparr>llm_calls := llm_calls w @ [(Normal, response_prompt qu)]\<rparr>)
            | Inr text \<Rightarrow> (Inr (st\<lparr>final_response := text\<rparr>),
                           w\<lparr>llm_calls := llm_calls w @ [(Normal, response_prompt qu)]\<rparr>))"
  using assms
  by (auto simp: response_agent_def bind_io_def invoke_def return_io_def response_prompt_def Let_def
        split: sum.splits)

lemma query_agent_total:
  assumes rel: "reliable_storage a" and svc: "service_answers a"
  shows "\<exists>st' w'. query_agent a st w = (Inr st', w') \<and> store w' = store w
           \<and> st_session_summary st' = st_session_summary st"
proof (cases "user_query st = []")
  case True
  then show ?thesis by (simp add: query_agent_def return_io_def)
next
  case False
  from svc obtain reply where
    "llm_invoke a Structured (llm_calls w) (query_prompt a (store w) st) = Inr reply"
    unfolding service_answers_def by blast
  with query_agent_reliable [OF rel False, of w] show ?thesis by simp
qed

lemma response_agent_total:
  assumes svc: "service_answers a"
  shows "\<exists>st' w'. response_agent a st w = (Inr st', w') \<and> store w' = store w
           \<and> st_session_summary st' = st_session_summary st"
proof (cases "st_query_understanding st")
  case None
  then show ?thesis by (simp add: response_agent_def return_io_def)
next
  case (Some qu)
  show ?thesis
  proof (cases "is_ambiguous qu \<and> falsy (rewritten_query qu) \<and> clarifying_questions qu \<noteq> []")
    case True
    with Some show ?thesis by (simp add: response_agent_def return_io_def Let_def)
  next
    case False
    from svc obtain reply where
      "llm_invoke a Normal (llm_calls w) (response_prompt qu) = Inr reply"
      unfolding service_answers_def by blast
    with response_agent_generates [OF Some False, of a w] show ?thesis by simp
  qed
qed

lemma run_after_context:
  assumes rel: "reliable_storage a"
  shows "run a now sid query w =
           bind_io (case should_summarize (context_state a (store w) sid query) of
                      Summarizer_agent \<Rightarrow> summarizer_agent a now (context_state a (store w) sid query)
                    | Query_agent \<Rightarrow> return_io (context_state a (store w) sid query))
             (\<lambda>s2. bind_io (query_agent a s2) (response_agent a))
             (w\<lparr>steps := steps w + 2\<rparr>)"
  unfolding run_def
  by (simp add: bind_io_def context_agent_reliable [OF rel])

lemma context_state_simps [simp]:
  "session_id (context_state a d sid query) = sid"
  "user_query (context_state a d sid query) = query"
  "st_query_understanding (context_state a d sid query) = None"
  "messages (context_state a d sid query) = map row_msg (select_messages d sid None True)"
  by (simp_all add: context_state_def initial_state_def)

lemma unarchived_le_log:
  "length (select_messages d sid None True) \<le> length (session_log d sid)"
proof -
  have "length (filter (\<lambda>r. row_session r = sid \<and> \<not> is_summarized r) rows)
        \<le> length (filter (\<lambda>r. row_session r = sid) rows)" for rows :: "msg_row list"
    by (induction rows) auto
  then show ?thesis
    by (simp add: select_messages_def session_log_def order_by_timestamp_def)
qed


lemma session_log_session:
  "r \<in> set (session_log d sid) \<Longrightarrow> row_session r = sid"
  by (simp add: session_log_def order_by_timestamp_def)



subsection \<open>A concrete compaction\<close>

lemma ex_reliable: "reliable_storage (ex_agents t reply (\<lambda>n. False))"
  by (simp add: reliable_storage_def ex_agents_def)

lemma ex_log: "session_log (store (ex_world ex_rows)) ''s'' = ex_rows"
  by (simp add: session_log_def order_by_timestamp_def ex_defs)


lemma ex_service_answers: "service_answers (ex_agents t (\<lambda>n. Inr r) faults)"
  by (simp add: service_answers_def ex_agents_def)

lemma ex_parse_summary: "parse_summary (ex_agents t reply faults) resp = None"
  by (simp add: parse_summary_def ex_agents_def split: option.splits)



lemma ex_compaction:
  assumes "reply 0 = Inr ''{}''"
  shows "summarizer_agent (ex_agents 12 reply (\<lambda>n. False)) 5 ex_state
           ((ex_world ex_rows)\<lparr>steps := k\<rparr>) =
     (Inr (ex_state\<lparr>st_session_summary :=
                      Some \<lparr>session_summary = empty_summary,
                            message_range_summarized = \<lparr>from_index = 1, to_index = 1\<rparr>,
                            smo_timestamp = 5\<rparr>,
                    needs_summarization := False\<rparr>),
      \<lparr>store = \<lparr>messages_tbl = [ex_row 1 ''s'' (ex_message ''user'' ''old'' 1) True,
                                ex_row 2 ''s'' (ex_message ''user'' ''hello'' 2) True],
                session_summaries_tbl =
                  [\<lparr>summary_id = 1, summary_session = ''s'', summary_json = empty_summary,
                    from_message_index = 1, to_message_index = 1, summary_timestamp = 5\<rparr>]\<rparr>,
       llm_calls = [(Structured, summarizer_prompt (ex_agents 12 reply (\<lambda>n. False))
                                   (store (ex_world ex_rows)) ex_state)],
       steps = k + 9\<rparr>)"
proof -
  let ?a = "ex_agents 12 reply (\<lambda>n. False)"
  let ?w = "(ex_world ex_rows)\<lparr>steps := k\<rparr>"
  have s: "session_id ex_state = ''s''" by (simp add: ex_defs initial_state_def)
  have m: "messages ex_state = [ex_message ''user'' ''hello'' 2]" by (simp add: ex_state_def)
  have sw: "store ?w = store (ex_world ex_rows)" by simp
  have o: "summarizer_output ?a 5 (store (ex_world ex_rows)) ex_state ''{}''
     = \<lparr>session_summary = empty_summary,
        message_range_summarized = \<lparr>from_index = 1, to_index = 1\<rparr>,
        smo_timestamp = 5\<rparr>"
    unfolding summarizer_output_def s m ex_log
    by (simp add: ex_rows_def ex_parse_summary)
  have c: "compacted ''s'' \<lparr>session_summary = empty_summary,
                            message_range_summarized = \<lparr>from_index = 1, to_index = 1\<rparr>,
                            smo_timestamp = 5\<rparr> (store (ex_world ex_rows)) =
     \<lparr>messages_tbl = [ex_row 1 ''s'' (ex_message ''user'' ''old'' 1) True,
                      ex_row 2 ''s'' (ex_message ''user'' ''hello'' 2) True],
      session_summaries_tbl =
        [\<lparr>summary_id = 1, summary_session = ''s'', summary_json = empty_summary,
          from_message_index = 1, to_message_index = 1, summary_timestamp = 5\<rparr>]\<rparr>"
    by (simp add: compacted_def update_summarized_def insert_summary_def range_ids_def
      order_by_timestamp_def sql_limit_def sql_offset_def next_id_def ex_defs)
  have ne: "messages ex_state \<noteq> []" by (simp add: m)
  have llm: "llm_invoke ?a Structured (llm_calls ?w) (summarizer_prompt ?a (store ?w) ex_state)
               = Inr ''{}''"
    using assms by (simp add: ex_agents_def ex_world_def)
  have le: "length (messages ex_state) \<le> length (session_log (store ?w) (session_id ex_state))"
    unfolding sw s ex_log m by (simp add: ex_rows_def)
  show ?thesis
    unfolding summarizer_agent_reliable [OF ex_reliable ne llm le] sw o s c
    by (simp add: ex_world_def)
qed


lemma ex_summarizer_run:
  "summarizer_agent (ex_agents 12 (\<lambda>n. Inr ''{}'') (\<lambda>n. False)) 5 ex_state (ex_world ex_rows) =
     (Inr (ex_state\<lparr>st_session_summary :=
                      Some \<lparr>session_summary = empty_summary,
                            message_range_summarized = \<lparr>from_index = 1, to_index = 1\<rparr>,
                            smo_timestamp = 5\<rparr>,
                    needs_summarization := False\<rparr>),
      \<lparr>store = \<lparr>messages_tbl = [ex_row 1 ''s'' (ex_message ''user'' ''old'' 1) True,
                                ex_row 2 ''s'' (ex_message ''user'' ''hello'' 2) True],
                session_summaries_tbl =
                  [\<lparr>summary_id = 1, summary_session = ''s'', summary_json = empty_summary,
                    from_message_index = 1, to_message_index = 1, summary_timestamp = 5\<rparr>]\<rparr>,
       llm_calls = [(Structured, summarizer_prompt (ex_agents 12 (\<lambda>n. Inr ''{}'') (\<lambda>n. False))
                                   (store (ex_world ex_rows)) ex_state)],
       steps = 9\<rparr>)"
  using ex_compaction [of "\<lambda>n. Inr ''{}''" 0] by (simp add: ex_world_def)

subsection \<open>The summarized range\<close>

text \<open>
  C2. Whenever the summarizer returns after running on a non-empty list of messages, it
  has appended one summary row for the session whose \<open>from\<close> index is the number of all
  rows stored for the session (archived or not) minus the number of messages merged, and
  whose \<open>to\<close> index is that total minus one; the same range is in the returned state.
\<close>

theorem summarizer_range:
  assumes "summarizer_agent a now st w = (Inr st', w')" and "messages st \<noteq> []"
  shows "\<exists>row. session_summaries_tbl (store w') = session_summaries_tbl (store w) @ [row]
      \<and> summary_session row = session_id st
      \<and> from_message_index row =
          int (length (filter (\<lambda>r. row_session r = session_id st) (messages_tbl (store w))))
          - int (length (messages st))
      \<and> to_message_index row =
          int (length (filter (\<lambda>r. row_session r = session_id st) (messages_tbl (store w)))) - 1
      \<and> 0 \<le> from_message_index row \<and> from_message_index row \<le> to_message_index row
      \<and> st_session_summary st' = Some (output_of_row row)"
proof -
  from summarizer_success [OF assms] obtain resp where
    st: "st' = st\<lparr>st_session_summary := Some (summarizer_output a now (store w) st resp),
                  needs_summarization := False\<rparr>" and
    le: "int (length (messages st)) \<le> int (length (session_log (store w) (session_id st)))" and
    w: "store w' = compacted (session_id st) (summarizer_output a now (store w) st resp) (store w)"
    by blast
  have n: "length (session_log (store w) (session_id st)) =
           length (filter (\<lambda>r. row_session r = session_id st) (messages_tbl (store w)))"
    by (simp add: session_log_def order_by_timestamp_def)
  from assms(2) have "0 < length (messages st)" by simp
  with le show ?thesis
    unfolding w st session_summaries_compacted n [symmetric]
    by (simp add: summarizer_output_def output_of_row_def)
qed



theorem summarizer_range_witness:
  "\<exists>st' w'. summarizer_agent (ex_agents 12 (\<lambda>n. Inr ''{}'') (\<lambda>n. False)) 5 ex_state
               (ex_world ex_rows) = (Inr st', w')
     \<and> messages ex_state \<noteq> []
     \<and> (\<exists>row. session_summaries_tbl (store w') = [row]
           \<and> from_message_index row = 1 \<and> to_message_index row = 1
           \<and> st_session_summary st' = Some (output_of_row row))"
proof -
  have ne: "messages ex_state \<noteq> []" by (simp add: ex_state_def)
  have n: "length (filter (\<lambda>r. row_session r = session_id ex_state)
                     (messages_tbl (store (ex_world ex_rows)))) = 2"
    by (simp add: ex_defs initial_state_def)
  have m: "length (messages ex_state) = 1" by (simp add: ex_state_def)
  have e: "session_summaries_tbl (store (ex_world ex_rows)) = []" by (simp add: ex_world_def)
  from summarizer_range [OF ex_summarizer_run ne] show ?thesis
    unfolding n m e using ex_summarizer_run ne by auto
qed

subsection \<open>The response policy\<close>

lemma str_nat_one: "str_nat (Suc 0) = ''1''"
  by code_simp

text \<open>
  C5. When the state carries a query understanding, the response agent returns the
  clarification text (a fixed heading followed by the numbered clarifying questions) and
  leaves the log of generation calls as it was exactly when the understanding is ambiguous,
  its rewritten query is absent or empty, and it has at least one clarifying question; in
  every other case it makes one call to the generation service with the response prompt.
\<close>

theorem response_agent_hard_stop:
  assumes "st_query_understanding st = Some qu"
  shows "(response_agent a st w = (Inr (st\<lparr>final_response := clarification qu\<rparr>), w)
          \<longleftrightarrow> is_ambiguous qu \<and> (rewritten_query qu = None \<or> rewritten_query qu = Some [])
              \<and> clarifying_questions qu \<noteq> [])
       \<and> (llm_calls (snd (response_agent a st w)) = llm_calls w
          \<longleftrightarrow> is_ambiguous qu \<and> (rewritten_query qu = None \<or> rewritten_query qu = Some [])
              \<and> clarifying_questions qu \<noteq> [])
       \<and> (llm_calls (snd (response_agent a st w)) \<noteq> llm_calls w
          \<longrightarrow> llm_calls (snd (response_agent a st w)) = llm_calls w @ [(Normal, response_prompt qu)])"
proof -
  have f: "falsy (rewritten_query qu) \<longleftrightarrow> rewritten_query qu = None \<or> rewritten_query qu = Some []"
    by (simp add: falsy_def split: option.splits)
  show ?thesis
  proof (cases "is_ambiguous qu \<and> falsy (rewritten_query qu) \<and> clarifying_questions qu \<noteq> []")
    case True
    with assms have "response_agent a st w = (Inr (st\<lparr>final_response := clarification qu\<rparr>), w)"
      by (simp add: response_agent_def return_io_def clarification_def Let_def)
    with True f show ?thesis by simp
  next
    case False
    with assms have c: "llm_calls (snd (response_agent a st w)) = llm_calls w @ [(Normal, response_prompt qu)]"
      by (auto simp: response_agent_def bind_io_def invoke_def return_io_def response_prompt_def Let_def
           split: sum.splits)
    then have "snd (response_agent a st w) \<noteq> w" by auto
    then have "response_agent a st w \<noteq> (Inr (st\<lparr>final_response := clarification qu\<rparr>), w)"
      by auto
    with False f c show ?thesis by auto
  qed
qed

theorem response_agent_hard_stop_witness:
  "st_query_understanding (ex_state\<lparr>st_query_understanding := Some ex_cryptic\<rparr>) = Some ex_cryptic
   \<and> response_agent (ex_agents 12 (\<lambda>n. Inr []) (\<lambda>n. False))
         (ex_state\<lparr>st_query_understanding := Some ex_cryptic\<rparr>) (ex_world ex_rows)
       = (Inr (ex_state\<lparr>st_query_understanding := Some ex_cryptic,
                        final_response := ''I need some clarification:'' @ nl @ nl @ ''1. What?''\<rparr>),
          ex_world ex_rows)"
proof -
  have h: "st_query_understanding (ex_state\<lparr>st_query_understanding := Some ex_cryptic\<rparr>)
           = Some ex_cryptic"
    by simp
  have c: "clarification ex_cryptic = ''I need some clarification:'' @ nl @ nl @ ''1. What?''"
    by (simp add: clarification_def ex_cryptic_def str_nat_one)
  from response_agent_hard_stop [OF h, of "ex_agents 12 (\<lambda>n. Inr []) (\<lambda>n. False)"
      "ex_world ex_rows"]
  show ?thesis unfolding c by (simp add: ex_cryptic_def)
qed

subsection \<open>The empty query\<close>

lemma context_agent_fields:
  assumes "context_agent a st w = (Inr st', w')"
  shows "user_query st' = user_query st \<and> st_query_understanding st' = st_query_understanding st
         \<and> session_id st' = session_id st"
  using assms unfolding context_agent_def
  by (auto dest!: bind_io_Inr simp: return_io_def Let_def)

lemma summarizer_agent_fields:
  assumes "summarizer_agent a now st w = (Inr st', w')"
  shows "user_query st' = user_query st \<and> st_query_understanding st' = st_query_understanding st
         \<and> session_id st' = session_id st"
proof (cases "messages st = []")
  case True
  with assms show ?thesis by (simp add: summarizer_agent_def return_io_def)
next
  case False
  from summarizer_success [OF assms False] show ?thesis by auto
qed

lemma bind_io_cong_Inr:
  assumes "\<And>v w1. m w = (Inr v, w1) \<Longrightarrow> f v w1 = g v w1"
  shows "bind_io m f w = bind_io m g w"
  using assms by (auto simp: bind_io_def split: prod.splits sum.splits)

lemma bind_io_assoc: "bind_io (bind_io m f) g = bind_io m (\<lambda>v. bind_io (f v) g)"
  by (rule ext) (auto simp: bind_io_def split: prod.splits sum.splits)

text \<open>
  C10. A query agent given an empty query returns its state and the world untouched; a
  response agent given a state with no query understanding returns the fixed text without
  calling the generation service; and a whole turn with an empty query is the compaction
  stages followed by nothing but setting that fixed text.
\<close>

theorem empty_query_turn:
  "query_agent a (st\<lparr>user_query := []\<rparr>) w = (Inr (st\<lparr>user_query := []\<rparr>), w)
   \<and> response_agent a (st\<lparr>st_query_understanding := None\<rparr>) w =
       (Inr (st\<lparr>st_query_understanding := None,
                final_response := ''I need a query to respond to.''\<rparr>), w)
   \<and> run a now sid [] w =
       bind_io (bind_io (context_agent a (initial_state sid []))
                  (\<lambda>s1. case should_summarize s1 of
                          Summarizer_agent \<Rightarrow> summarizer_agent a now s1
                        | Query_agent \<Rightarrow> return_io s1))
         (\<lambda>s2. return_io (s2\<lparr>final_response := ''I need a query to respond to.''\<rparr>)) w"
proof -
  have q: "query_agent a (st\<lparr>user_query := []\<rparr>) w = (Inr (st\<lparr>user_query := []\<rparr>), w)"
    by (simp add: query_agent_def return_io_def)
  have r: "response_agent a (st\<lparr>st_query_understanding := None\<rparr>) w =
       (Inr (st\<lparr>st_query_understanding := None,
                final_response := ''I need a query to respond to.''\<rparr>), w)"
    by (simp add: response_agent_def return_io_def)
  have tail: "bind_io (query_agent a s2) (response_agent a) w2 =
        return_io (s2\<lparr>final_response := ''I need a query to respond to.''\<rparr>) w2"
    if "user_query s2 = []" and "st_query_understanding s2 = None" for s2 w2
    using that by (simp add: query_agent_def response_agent_def return_io_def bind_io_def)
  have stage: "user_query s2 = [] \<and> st_query_understanding s2 = None"
    if "bind_io (context_agent a (initial_state sid []))
                  (\<lambda>s1. case should_summarize s1 of
                          Summarizer_agent \<Rightarrow> summarizer_agent a now s1
                        | Query_agent \<Rightarrow> return_io s1) w = (Inr s2, w2)" for s2 w2
  proof -
    from bind_io_Inr [OF that] obtain s1 w1 where
      c: "context_agent a (initial_state sid []) w = (Inr s1, w1)" and
      s: "(case should_summarize s1 of
                          Summarizer_agent \<Rightarrow> summarizer_agent a now s1
                        | Query_agent \<Rightarrow> return_io s1) w1 = (Inr s2, w2)"
      by blast
    from context_agent_fields [OF c] have "user_query s1 = [] \<and> st_query_understanding s1 = None"
      by (simp add: initial_state_def)
    with s show ?thesis
      by (cases "should_summarize s1") (auto dest: summarizer_agent_fields simp: return_io_def)
  qed
  have "run a now sid [] w =
       bind_io (bind_io (context_agent a (initial_state sid []))
                  (\<lambda>s1. case should_summarize s1 of
                          Summarizer_agent \<Rightarrow> summarizer_agent a now s1
                        | Query_agent \<Rightarrow> return_io s1))
         (\<lambda>s2. bind_io (query_agent a s2) (response_agent a)) w"
    unfolding run_def by (simp add: bind_io_assoc)
  also have "\<dots> = bind_io (bind_io (context_agent a (initial_state sid []))
                  (\<lambda>s1. case should_summarize s1 of
                          Summarizer_agent \<Rightarrow> summarizer_agent a now s1
                        | Query_agent \<Rightarrow> return_io s1))
         (\<lambda>s2. return_io (s2\<lparr>final_response := ''I need a query to respond to.''\<rparr>)) w"
    by (rule bind_io_cong_Inr) (auto dest!: stage intro: tail)
  finally show ?thesis using q r by simp
qed

theorem empty_query_turn_witness:
  "query_agent (ex_agents 12 (\<lambda>n. Inr []) (\<lambda>n. False)) (ex_state\<lparr>user_query := []\<rparr>)
       (ex_world ex_rows)
     = (Inr (ex_state\<lparr>user_query := []\<rparr>), ex_world ex_rows)
   \<and> response_agent (ex_agents 12 (\<lambda>n. Inr []) (\<lambda>n. False))
         (ex_state\<lparr>st_query_understanding := None\<rparr>) (ex_world ex_rows)
     = (Inr (ex_state\<lparr>st_query_understanding := None,
                      final_response := ''I need a query to respond to.''\<rparr>), ex_world ex_rows)"
  using empty_query_turn [of "ex_agents 12 (\<lambda>n. Inr []) (\<lambda>n. False)" ex_state
      "ex_world ex_rows" 0 "''s''"]
  by simp

subsection \<open>Fail-soft parsing in the query agent\<close>




subsection \<open>Fail-soft parsing in the summarizer\<close>




subsection \<open>Errors of the generation service\<close>





subsection \<open>Idempotent archiving\<close>

lemma context_agent_reliable_any:
  assumes "reliable_storage a"
  shows "context_agent a st w =
           (Inr (st\<lparr>messages := map row_msg (select_messages (store w) (session_id st) None True),
                    total_tokens := live_tokens a (store w) (session_id st),
                    needs_summarization :=
                      (token_threshold a < live_tokens a (store w) (session_id st))\<rparr>),
            w\<lparr>steps := steps w + 2\<rparr>)"
  unfolding context_agent_def get_messages_def
  using live_tokens_select [of a "store w" "session_id st"]
  by (simp add: reliable_transaction [OF assms] bind_io_def return_io_def Let_def)

lemma live_tokens_without_archived:
  "live_tokens a (without_archived d) sid = live_tokens a d sid"
  by (simp add: live_tokens_def without_archived_def conj_commute)

lemma update_summarized_noop:
  assumes "\<forall>r\<in>set (messages_tbl d).
             row_session r = sid \<and> row_id r \<in> set (range_ids d sid f t) \<longrightarrow> is_summarized r"
  shows "snd (update_summarized sid f t d) = d"
proof -
  have "map (flag_rows sid (set (range_ids d sid f t))) (messages_tbl d) = messages_tbl d"
    using assms by (intro map_idI) (auto simp: flag_rows_def)
  then have "messages_tbl (snd (update_summarized sid f t d)) = messages_tbl d"
    by (simp add: messages_update_summarized)
  moreover have "session_summaries_tbl (snd (update_summarized sid f t d)) = session_summaries_tbl d"
    by (simp add: messages_update_summarized)
  ultimately show ?thesis by simp
qed

text \<open>
  C8. With reliable storage: running the context agent twice in a row, with no message
  stored in between, leaves the store untouched and gives the same live messages, the same
  total and the same decision, and that total is what the store gives once its archived rows
  are removed; the live messages it loads are all non-archived; marking a range twice gives
  the store that marking it once gives; and marking a range whose rows are all archived
  already leaves the store as it was.
\<close>

theorem archiving_idempotent:
  assumes rel: "reliable_storage a"
  shows "(\<exists>s1 w1 s2 w2.
            context_agent a st w = (Inr s1, w1) \<and> context_agent a st w1 = (Inr s2, w2)
            \<and> store w1 = store w \<and> store w2 = store w
            \<and> messages s2 = messages s1 \<and> total_tokens s2 = total_tokens s1
            \<and> needs_summarization s2 = needs_summarization s1
            \<and> total_tokens s1 = live_tokens a (without_archived (store w)) (session_id st))
       \<and> (\<forall>r\<in>set (select_messages (store w) sid None True). \<not> is_summarized r)
       \<and> (\<exists>w1 w2.
            mark_messages_as_summarized a sid f t w = (Inr (), w1)
            \<and> mark_messages_as_summarized a sid f t w1 = (Inr (), w2)
            \<and> store w2 = store w1)
       \<and> ((\<forall>r\<in>set (messages_tbl (store w)).
              row_session r = sid \<and> row_id r \<in> set (range_ids (store w) sid f t)
              \<longrightarrow> is_summarized r)
          \<longrightarrow> (\<exists>w1. mark_messages_as_summarized a sid f t w = (Inr (), w1)
                    \<and> store w1 = store w))"
proof (intro conjI impI)
  show "\<exists>s1 w1 s2 w2.
            context_agent a st w = (Inr s1, w1) \<and> context_agent a st w1 = (Inr s2, w2)
            \<and> store w1 = store w \<and> store w2 = store w
            \<and> messages s2 = messages s1 \<and> total_tokens s2 = total_tokens s1
            \<and> needs_summarization s2 = needs_summarization s1
            \<and> total_tokens s1 = live_tokens a (without_archived (store w)) (session_id st)"
    by (simp add: context_agent_reliable_any [OF rel] live_tokens_without_archived)
  show "\<forall>r\<in>set (select_messages (store w) sid None True). \<not> is_summarized r"
    by (simp add: select_messages_def order_by_timestamp_def)
  show "\<exists>w1 w2.
            mark_messages_as_summarized a sid f t w = (Inr (), w1)
            \<and> mark_messages_as_summarized a sid f t w1 = (Inr (), w2)
            \<and> store w2 = store w1"
    unfolding mark_messages_as_summarized_def
    by (simp add: reliable_transaction [OF rel] update_summarized_idem)
next
  assume "\<forall>r\<in>set (messages_tbl (store w)).
              row_session r = sid \<and> row_id r \<in> set (range_ids (store w) sid f t)
              \<longrightarrow> is_summarized r"
  then show "\<exists>w1. mark_messages_as_summarized a sid f t w = (Inr (), w1) \<and> store w1 = store w"
    unfolding mark_messages_as_summarized_def
    by (simp add: reliable_transaction [OF rel] update_summarized_noop)
qed

theorem archiving_idempotent_witness:
  "reliable_storage (ex_agents 12 (\<lambda>n. Inr []) (\<lambda>n. False))
   \<and> (\<exists>s1 w1 s2 w2.
         context_agent (ex_agents 12 (\<lambda>n. Inr []) (\<lambda>n. False)) ex_state (ex_world ex_rows)
           = (Inr s1, w1)
         \<and> context_agent (ex_agents 12 (\<lambda>n. Inr []) (\<lambda>n. False)) ex_state w1 = (Inr s2, w2)
         \<and> store w2 = store (ex_world ex_rows) \<and> total_tokens s2 = total_tokens s1)
   \<and> (\<exists>w1. mark_messages_as_summarized (ex_agents 12 (\<lambda>n. Inr []) (\<lambda>n. False)) ''s'' 0 0
              (ex_world ex_rows) = (Inr (), w1)
          \<and> store w1 = store (ex_world ex_rows))"
proof -
  let ?a = "ex_agents 12 (\<lambda>n. Inr []) (\<lambda>n. False)"
  have rel: "reliable_storage ?a" by (rule ex_reliable)
  have old: "\<forall>r\<in>set (messages_tbl (store (ex_world ex_rows))).
              row_session r = ''s'' \<and> row_id r \<in> set (range_ids (store (ex_world ex_rows)) ''s'' 0 0)
              \<longrightarrow> is_summarized r"
    by (simp add: range_ids_def order_by_timestamp_def sql_limit_def sql_offset_def ex_defs)
  from archiving_idempotent [OF rel, of ex_state "ex_world ex_rows" "''s''" 0 0] old rel
  show ?thesis by blast
qed


subsection \<open>Atomic compaction\<close>

lemma bind_io_cases:
  assumes "bind_io m f w = (r, w')"
  obtains (raised) err where "m w = (Inl err, w')" and "r = Inl err"
        | (returned) v w1 where "m w = (Inr v, w1)" and "f v w1 = (r, w')"
  using assms by (auto simp: bind_io_def split: prod.splits sum.splits)

lemma summarizer_agent_store:
  assumes run: "summarizer_agent a now st w = (r, w')"
  shows "store w' = store w
       \<or> (messages st \<noteq> []
          \<and> int (length (messages st)) \<le> int (length (session_log (store w) (session_id st)))
          \<and> (\<exists>resp. store w' = compacted (session_id st)
                          (summarizer_output a now (store w) st resp) (store w)))"
proof (cases "messages st = []")
  case True
  with run show ?thesis by (simp add: summarizer_agent_def return_io_def)
next
  case False
  let ?sid = "session_id st"
  from run False have
    "bind_io (get_latest_summary a ?sid) (\<lambda>previous_summary.
        bind_io (invoke a Structured
                   [SystemMessage (summarizer_system_prompt a),
                    HumanMessage (summarizer_human_prompt previous_summary (messages st))])
          (\<lambda>response.
        bind_io (get_messages a ?sid None False) (\<lambda>all_messages.
        bind_io (make_MessageRange (int (length all_messages) - int (length (messages st)))
                   (int (length all_messages) - 1)) (\<lambda>range.
        bind_io (save_summary a ?sid
                   \<lparr>session_summary = (case parse_summary a response of
                                         Some s \<Rightarrow> s | None \<Rightarrow> empty_summary),
                    message_range_summarized = range, smo_timestamp = now\<rparr>) (\<lambda>_.
        bind_io (mark_messages_as_summarized a ?sid
                   (int (length all_messages) - int (length (messages st)))
                   (int (length all_messages) - 1)) (\<lambda>_.
        return_io (st\<lparr>st_session_summary :=
                        Some \<lparr>session_summary = (case parse_summary a response of
                                                   Some s \<Rightarrow> s | None \<Rightarrow> empty_summary),
                              message_range_summarized = range, smo_timestamp = now\<rparr>,
                      needs_summarization := False\<rparr>))))))) w = (r, w')"
    by (simp add: summarizer_agent_def Let_def)
  then show ?thesis
  proof (cases rule: bind_io_cases)
    case (raised err)
    then show ?thesis unfolding get_latest_summary_def by (auto dest!: read_outcome)
  next
    case (returned prev w1)
    from returned(1) have s1: "store w1 = store w"
      unfolding get_latest_summary_def by (auto dest!: read_outcome)
    from returned(2) show ?thesis
    proof (cases rule: bind_io_cases)
      case (raised err)
      with s1 show ?thesis by (auto dest!: invoke_outcome)
    next
      case (returned resp w2)
      from returned(1) have s2: "store w2 = store w" using s1 by (auto dest!: invoke_outcome)
      from returned(2) show ?thesis
      proof (cases rule: bind_io_cases)
        case (raised err)
        with s2 show ?thesis unfolding get_messages_def by (auto dest!: read_outcome)
      next
        case (returned alls w3)
        from returned(1) have s3: "store w3 = store w"
          and al: "alls = map row_msg (session_log (store w) ?sid)"
          using s2 unfolding get_messages_def select_all_is_log [symmetric]
          by (auto dest!: read_outcome)
        from returned(2) show ?thesis
        proof (cases rule: bind_io_cases)
          case (raised err)
          with s3 show ?thesis
            by (auto simp: make_MessageRange_def raise_io_def return_io_def split: if_splits)
        next
          case (returned range w4)
          from returned(1) have s4: "w4 = w3"
            and rg: "range = \<lparr>from_index = int (length alls) - int (length (messages st)),
                              to_index = int (length alls) - 1\<rparr>"
            and b: "0 \<le> int (length alls) - int (length (messages st))"
            by (auto simp: make_MessageRange_def raise_io_def return_io_def split: if_splits)
          have out: "\<lparr>session_summary = (case parse_summary a resp of
                                         Some s \<Rightarrow> s | None \<Rightarrow> empty_summary),
                    message_range_summarized = range, smo_timestamp = now\<rparr>
                 = summarizer_output a now (store w) st resp"
            by (simp add: summarizer_output_def rg al)
          have le: "int (length (messages st)) \<le> int (length (session_log (store w) ?sid))"
            using b by (simp add: al)
          from returned(2) show ?thesis
          proof (cases rule: bind_io_cases)
            case (raised err)
            from save_summary_outcome [OF raised(1)] s3 s4 show ?thesis by auto
          next
            case (returned i w5)
            from save_summary_outcome [OF returned(1)] have
              s5: "store w5 = compacted ?sid (summarizer_output a now (store w) st resp) (store w)"
              unfolding out using s3 s4 by (auto simp: compacted_def)
            have tw: "snd (update_summarized ?sid
                         (int (length alls) - int (length (messages st)))
                         (int (length alls) - 1) (store w5)) = store w5"
              unfolding s5 using compacted_twice [of ?sid "summarizer_output a now (store w) st resp" "store w"]
              by (simp add: summarizer_output_def al)
            from returned(2) have "store w' = store w5"
            proof (cases rule: bind_io_cases)
              case (raised err)
              then show ?thesis
                unfolding mark_messages_as_summarized_def using tw by (auto dest!: write_outcome)
            next
              case (returned u w6)
              then show ?thesis
                unfolding mark_messages_as_summarized_def using tw
                by (auto dest!: write_outcome simp: return_io_def)
            qed
            with s5 False le show ?thesis by auto
          qed
        qed
      qed
    qed
  qed
qed

lemma in_range_take_drop:
  assumes "0 \<le> f" and "f \<le> t"
  shows "in_range log f t r \<longleftrightarrow> r \<in> set (take (nat (t - f + 1)) (drop (nat f) log))"
proof
  assume "in_range log f t r"
  then obtain i where i: "i < length log" "f \<le> int i" "int i \<le> t" "log ! i = r"
    unfolding in_range_def by blast
  have a: "nat f \<le> i" using assms i by linarith
  have b: "i - nat f < nat (t - f + 1)" using assms i by linarith
  have c: "i - nat f < length (drop (nat f) log)" using i a by simp
  have "take (nat (t - f + 1)) (drop (nat f) log) ! (i - nat f) = log ! i"
    using a b c by simp
  moreover have "i - nat f < length (take (nat (t - f + 1)) (drop (nat f) log))"
    using b c by simp
  ultimately show "r \<in> set (take (nat (t - f + 1)) (drop (nat f) log))"
    using i(4) by (metis nth_mem)
next
  assume "r \<in> set (take (nat (t - f + 1)) (drop (nat f) log))"
  then obtain j where j: "j < length (take (nat (t - f + 1)) (drop (nat f) log))"
    "take (nat (t - f + 1)) (drop (nat f) log) ! j = r"
    by (auto simp: in_set_conv_nth)
  then have j1: "j < nat (t - f + 1)" and j2: "j < length log - nat f" by simp_all
  have "log ! (nat f + j) = r" using j j1 j2 by simp
  moreover have "nat f + j < length log" using j2 by linarith
  moreover have "f \<le> int (nat f + j)" using assms by linarith
  moreover have "int (nat f + j) \<le> t" using assms j1 by linarith
  ultimately show "in_range log f t r" unfolding in_range_def by blast
qed

lemma session_log_subset: "set (session_log d sid) \<subseteq> set (messages_tbl d)"
  by (auto simp: session_log_def order_by_timestamp_def)

lemma compacted_both_written:
  assumes dist: "distinct (map row_id (messages_tbl d))"
    and f: "0 \<le> from_index (message_range_summarized s)"
    and t: "from_index (message_range_summarized s) \<le> to_index (message_range_summarized s)"
  shows "both_written d sid s (compacted sid s d)"
proof -
  let ?f = "from_index (message_range_summarized s)"
  let ?t = "to_index (message_range_summarized s)"
  let ?sel = "take (nat (?t - ?f + 1)) (drop (nat ?f) (session_log d sid))"
  have ids: "range_ids d sid ?f ?t = map row_id ?sel"
    using t by (simp add: range_ids_def sql_limit_def sql_offset_def session_log_def)
  have sub: "set ?sel \<subseteq> set (session_log d sid)"
    by (meson set_take_subset set_drop_subset subset_trans)
  have flag: "flag_rows sid (set (range_ids d sid ?f ?t)) r =
        (if in_range (session_log d sid) ?f ?t r then r\<lparr>is_summarized := True\<rparr> else r)"
    if r: "r \<in> set (messages_tbl d)" for r
  proof (cases "r \<in> set ?sel")
    case True
    then have "row_session r = sid" using sub session_log_session by blast
    moreover have "row_id r \<in> set (range_ids d sid ?f ?t)" using True by (simp add: ids)
    ultimately show ?thesis
      using True by (simp add: flag_rows_def in_range_take_drop [OF f t])
  next
    case False
    have "row_id r \<notin> set (range_ids d sid ?f ?t)"
    proof
      assume "row_id r \<in> set (range_ids d sid ?f ?t)"
      then obtain r' where r': "r' \<in> set ?sel" "row_id r' = row_id r"
        by (auto simp: ids)
      then have "r' \<in> set (messages_tbl d)" using sub session_log_subset by blast
      with r r'(2) dist have "r' = r" by (meson distinct_map inj_onD)
      with r'(1) False show False by simp
    qed
    with False show ?thesis by (simp add: flag_rows_def in_range_take_drop [OF f t])
  qed
  have m0: "messages_tbl (snd (insert_summary sid s d)) = messages_tbl d"
    by (simp add: insert_summary_def Let_def)
  have r0: "range_ids (snd (insert_summary sid s d)) sid ?f ?t = range_ids d sid ?f ?t"
    by (simp add: range_ids_def m0)
  have "messages_tbl (compacted sid s d) =
          map (flag_rows sid (set (range_ids d sid ?f ?t))) (messages_tbl d)"
    by (simp add: compacted_def messages_update_summarized m0 r0)
  also have "\<dots> = map (\<lambda>r. if in_range (session_log d sid) ?f ?t r
                            then r\<lparr>is_summarized := True\<rparr> else r) (messages_tbl d)"
    by (rule map_cong) (simp_all add: flag)
  finally show ?thesis
    unfolding both_written_def
    by (simp add: session_summaries_compacted output_of_row_def)
qed

text \<open>
  C4. In a store whose message ids are distinct, \<open>save_summary\<close> with a range
  \<open>0 \<le> from \<le> to\<close> has two outcomes only, whatever storage step raises: it raises and
  the store is as before, or it returns and the store holds both the new summary row and the
  archived flag on exactly the messages of the range. The same holds for the summarizer as
  a whole, whatever it returns or raises: the store it leaves is the one it found or that
  one with both writes. A state with one write and not the other is never committed.
\<close>

theorem atomic_compaction:
  assumes dist: "distinct (map row_id (messages_tbl (store w)))"
  shows "(0 \<le> from_index (message_range_summarized s)
          \<and> from_index (message_range_summarized s) \<le> to_index (message_range_summarized s)
          \<and> save_summary a sid s w = (r, w')
        \<longrightarrow> (r = Inl StorageError \<and> store w' = store w)
            \<or> ((\<exists>i. r = Inr i) \<and> both_written (store w) sid s (store w')))
       \<and> (summarizer_agent a now st w = (r', w'')
        \<longrightarrow> store w'' = store w
            \<or> (\<exists>resp. both_written (store w) (session_id st)
                         (summarizer_output a now (store w) st resp) (store w'')))"
proof (intro conjI impI)
  assume h: "0 \<le> from_index (message_range_summarized s)
          \<and> from_index (message_range_summarized s) \<le> to_index (message_range_summarized s)
          \<and> save_summary a sid s w = (r, w')"
  then have "(r = Inl StorageError \<and> store w' = store w)
      \<or> (r = Inr (fst (insert_summary sid s (store w))) \<and> store w' = compacted sid s (store w))"
    using save_summary_outcome [of a sid s w r w'] by (simp add: compacted_def)
  with compacted_both_written [OF dist, of s sid] h
  show "(r = Inl StorageError \<and> store w' = store w)
            \<or> ((\<exists>i. r = Inr i) \<and> both_written (store w) sid s (store w'))"
    by auto
next
  assume "summarizer_agent a now st w = (r', w'')"
  from summarizer_agent_store [OF this]
  show "store w'' = store w
            \<or> (\<exists>resp. both_written (store w) (session_id st)
                         (summarizer_output a now (store w) st resp) (store w''))"
  proof
    assume "store w'' = store w"
    then show ?thesis by simp
  next
    assume c: "messages st \<noteq> []
          \<and> int (length (messages st)) \<le> int (length (session_log (store w) (session_id st)))
          \<and> (\<exists>resp. store w'' = compacted (session_id st)
                          (summarizer_output a now (store w) st resp) (store w))"
    then obtain resp where
      s: "store w'' = compacted (session_id st) (summarizer_output a now (store w) st resp) (store w)"
      by blast
    from c have "0 < length (messages st)" by simp
    with c have "0 \<le> from_index (message_range_summarized (summarizer_output a now (store w) st resp))"
      "from_index (message_range_summarized (summarizer_output a now (store w) st resp))
         \<le> to_index (message_range_summarized (summarizer_output a now (store w) st resp))"
      by (simp_all add: summarizer_output_def)
    from compacted_both_written [OF dist this] s show ?thesis by auto
  qed
qed

theorem atomic_compaction_witness:
  "distinct (map row_id (messages_tbl (store (ex_world ex_rows))))
   \<and> 0 \<le> from_index (message_range_summarized ex_output)
   \<and> from_index (message_range_summarized ex_output) \<le> to_index (message_range_summarized ex_output)
   \<and> save_summary (ex_agents 12 (\<lambda>n. Inr []) (\<lambda>n. n = 1)) ''s'' ex_output (ex_world ex_rows)
       = (Inl StorageError, (ex_world ex_rows)\<lparr>steps := 2\<rparr>)
   \<and> store ((ex_world ex_rows)\<lparr>steps := 2\<rparr>) = store (ex_world ex_rows)
   \<and> (\<exists>i w'. save_summary (ex_agents 12 (\<lambda>n. Inr []) (\<lambda>n. False)) ''s'' ex_output (ex_world ex_rows)
               = (Inr i, w')
         \<and> both_written (store (ex_world ex_rows)) ''s'' ex_output (store w'))"
proof -
  have dist: "distinct (map row_id (messages_tbl (store (ex_world ex_rows))))"
    by (simp add: ex_defs)
  have rng: "0 \<le> from_index (message_range_summarized ex_output)"
    "from_index (message_range_summarized ex_output) \<le> to_index (message_range_summarized ex_output)"
    by (simp_all add: ex_output_def)
  have fail: "save_summary (ex_agents 12 (\<lambda>n. Inr []) (\<lambda>n. n = 1)) ''s'' ex_output (ex_world ex_rows)
       = (Inl StorageError, (ex_world ex_rows)\<lparr>steps := 2\<rparr>)"
    by (simp add: save_summary_def io_defs insert_summary_def ex_agents_def ex_world_def
          split: prod.splits)
  obtain w' where ok: "save_summary (ex_agents 12 (\<lambda>n. Inr []) (\<lambda>n. False)) ''s'' ex_output
      (ex_world ex_rows) = (Inr (fst (insert_summary ''s'' ex_output (store (ex_world ex_rows)))), w')"
    using save_summary_reliable [OF ex_reliable] by blast
  from atomic_compaction [OF dist, where s = ex_output and a = "ex_agents 12 (\<lambda>n. Inr []) (\<lambda>n. False)"
      and sid = "''s''" and r = "Inr (fst (insert_summary ''s'' ex_output (store (ex_world ex_rows))))"
      and w' = w'] rng ok
  have "both_written (store (ex_world ex_rows)) ''s'' ex_output (store w')" by simp
  with dist rng fail ok show ?thesis by auto
qed


subsection \<open>What a turn does to the store\<close>

lemma context_agent_outcome:
  assumes "context_agent a st w = (r, w')"
  shows "store w' = store w
       \<and> (\<forall>s1. r = Inr s1 \<longrightarrow> session_id s1 = session_id st
             \<and> messages s1 = map row_msg (select_messages (store w) (session_id st) None True))"
  using assms unfolding context_agent_def get_messages_def
  by (elim bind_io_cases) (auto dest!: read_outcome simp: return_io_def Let_def)

lemma query_agent_store:
  assumes "query_agent a st w = (r, w')"
  shows "store w' = store w"
proof (cases "user_query st = []")
  case True
  with assms show ?thesis by (simp add: query_agent_def return_io_def)
next
  case False
  with assms show ?thesis
    unfolding query_agent_def get_recent_messages_def get_latest_summary_def Let_def
    by (simp, elim bind_io_cases) (auto dest!: read_outcome invoke_outcome simp: return_io_def)
qed

lemma response_agent_store:
  assumes "response_agent a st w = (r, w')"
  shows "store w' = store w"
  using assms unfolding response_agent_def
  by (auto simp: return_io_def Let_def split: option.splits if_splits
        elim!: bind_io_cases dest!: invoke_outcome)

lemma run_store:
  assumes "run a now sid query w = (r, w')"
  shows "store w' = store w
       \<or> (\<exists>s1 resp. session_id s1 = sid
             \<and> messages s1 = map row_msg (select_messages (store w) sid None True)
             \<and> messages s1 \<noteq> []
             \<and> store w' = compacted sid (summarizer_output a now (store w) s1 resp) (store w))"
  using assms unfolding run_def
proof (cases rule: bind_io_cases)
  case (raised err)
  from context_agent_outcome [OF raised(1)] show ?thesis by simp
next
  case (returned s1 w1)
  from context_agent_outcome [OF returned(1)] have
    c: "store w1 = store w" "session_id s1 = sid"
       "messages s1 = map row_msg (select_messages (store w) sid None True)"
    by (simp_all add: initial_state_def)
  have tail: "store w3 = store w2"
    if "bind_io (query_agent a s2) (response_agent a) w2 = (r, w3)" for s2 w2 w3
    using that
  proof (cases rule: bind_io_cases)
    case (raised err)
    then show ?thesis by (simp add: query_agent_store)
  next
    case (returned s3 w23)
    from query_agent_store [OF returned(1)] response_agent_store [OF returned(2)]
    show ?thesis by simp
  qed
  have stage: "store w2 = store w
       \<or> (\<exists>s1 resp. session_id s1 = sid
             \<and> messages s1 = map row_msg (select_messages (store w) sid None True)
             \<and> messages s1 \<noteq> []
             \<and> store w2 = compacted sid (summarizer_output a now (store w) s1 resp) (store w))"
    if h: "(case should_summarize s1 of
              Summarizer_agent \<Rightarrow> summarizer_agent a now s1
            | Query_agent \<Rightarrow> return_io s1) w1 = (r2, w2)" for r2 w2
  proof (cases "should_summarize s1")
    case Query_agent
    with h c show ?thesis by (simp add: return_io_def)
  next
    case Summarizer_agent
    with h have "summarizer_agent a now s1 w1 = (r2, w2)" by simp
    from summarizer_agent_store [OF this] show ?thesis
    proof
      assume "store w2 = store w1"
      with c show ?thesis by simp
    next
      assume "messages s1 \<noteq> []
          \<and> int (length (messages s1)) \<le> int (length (session_log (store w1) (session_id s1)))
          \<and> (\<exists>resp. store w2 = compacted (session_id s1)
                          (summarizer_output a now (store w1) s1 resp) (store w1))"
      then obtain resp where "messages s1 \<noteq> []"
        "store w2 = compacted sid (summarizer_output a now (store w) s1 resp) (store w)"
        using c by auto
      with c show ?thesis by blast
    qed
  qed
  from returned(2) show ?thesis
  proof (cases rule: bind_io_cases)
    case (raised err)
    from stage [OF raised(1)] show ?thesis .
  next
    case (returned s2 w2)
    from tail [OF returned(2)] have "store w' = store w2" .
    with stage [OF returned(1)] show ?thesis by simp
  qed
qed

lemma contiguous_append:
  "contiguous (xs @ [x]) \<longleftrightarrow>
     contiguous xs
     \<and> (xs \<noteq> [] \<longrightarrow> from_index (message_range_summarized x)
                      = to_index (message_range_summarized (last xs)) + 1)"
  by (induction xs rule: contiguous.induct) auto

lemma contiguous_nth:
  "contiguous xs \<Longrightarrow> Suc i < length xs \<Longrightarrow>
     from_index (message_range_summarized (xs ! Suc i))
       = to_index (message_range_summarized (xs ! i)) + 1"
proof (induction xs arbitrary: i rule: contiguous.induct)
  case (3 x y zs)
  then show ?case by (cases i) auto
qed auto

lemma session_rows_flagged:
  "filter (\<lambda>r. row_session r = sid) (map (flag_rows sid' ids) rows) =
     map (flag_rows sid' ids) (filter (\<lambda>r. row_session r = sid) rows)"
  by (induction rows) auto

lemma messages_compacted:
  "messages_tbl (compacted sid s d) =
     map (flag_rows sid (set (range_ids d sid (from_index (message_range_summarized s))
                                (to_index (message_range_summarized s)))))
       (messages_tbl d)"
proof -
  have m: "messages_tbl (snd (insert_summary sid s d)) = messages_tbl d"
    by (simp add: insert_summary_def Let_def)
  have r: "range_ids (snd (insert_summary sid s d)) sid f t = range_ids d sid f t" for f t
    by (simp add: range_ids_def m)
  show ?thesis by (simp add: compacted_def messages_update_summarized m r)
qed

lemma session_rows_compacted:
  "session_rows (compacted sid' s d) sid =
     map (flag_rows sid' (set (range_ids d sid' (from_index (message_range_summarized s))
                                 (to_index (message_range_summarized s)))))
       (session_rows d sid)"
  by (simp add: session_rows_def messages_compacted session_rows_flagged)

lemma session_rows_compacted_other:
  assumes "sid' \<noteq> sid"
  shows "session_rows (compacted sid' s d) sid = session_rows d sid"
  unfolding session_rows_compacted
  using assms by (intro map_idI) (auto simp: session_rows_def flag_rows_def)

lemma session_sums_compacted:
  "session_sums (compacted sid' s d) sid =
     session_sums d sid @
       (if sid' = sid
        then [\<lparr>summary_id = next_id (map summary_id (session_summaries_tbl d)),
               summary_session = sid', summary_json = session_summary s,
               from_message_index = from_index (message_range_summarized s),
               to_message_index = to_index (message_range_summarized s),
               summary_timestamp = smo_timestamp s\<rparr>]
        else [])"
  by (simp add: session_sums_def session_summaries_compacted)

lemma session_rows_insert:
  "session_rows (snd (insert_message sid' m d)) sid =
     session_rows d sid @
       (if sid' = sid
        then [\<lparr>row_id = next_id (map row_id (messages_tbl d)), row_session = sid',
               row_msg = m\<lparr>metadata := (case metadata m of None \<Rightarrow> None
                                         | Some kvs \<Rightarrow> if kvs = [] then None else Some kvs)\<rparr>,
               is_summarized = False\<rparr>]
        else [])"
  by (simp add: session_rows_def insert_message_def Let_def)

lemma session_sums_insert:
  "session_sums (snd (insert_message sid' m d)) sid = session_sums d sid"
  by (simp add: session_sums_def insert_message_def Let_def)

lemma save_store:
  "store (step a (Save sid' m) w) = store w
   \<or> store (step a (Save sid' m) w) = snd (insert_message sid' m (store w))"
proof -
  obtain r w' where s: "save_message a sid' m w = (r, w')" by (cases "save_message a sid' m w")
  from write_outcome [OF s [unfolded save_message_def]] s show ?thesis by auto
qed

lemma turn_store:
  "store (step a (Turn sid' query now) w) = store w
   \<or> (\<exists>s1 resp. session_id s1 = sid'
         \<and> messages s1 = map row_msg (select_messages (store w) sid' None True)
         \<and> messages s1 \<noteq> []
         \<and> store (step a (Turn sid' query now) w)
             = compacted sid' (summarizer_output a now (store w) s1 resp) (store w))"
proof -
  obtain r w' where s: "run a now sid' query w = (r, w')" by (cases "run a now sid' query w")
  from run_store [OF s] s show ?thesis by simp
qed

lemma sorted_log:
  assumes "sorted (map (\<lambda>r. timestamp (row_msg r)) (session_rows d sid))"
  shows "session_log d sid = session_rows d sid"
  using assms unfolding session_log_def order_by_timestamp_def session_rows_def
  by (rule sort_key_id_if_sorted)

lemma length_unarchived:
  "length (select_messages d sid None True)
     = length (filter (\<lambda>r. \<not> is_summarized r) (session_rows d sid))"
  by (simp add: select_messages_def order_by_timestamp_def session_rows_def)

subsection \<open>The invariant of a session\<close>

lemma flag_rows_keeps_archived: "is_summarized r \<Longrightarrow> is_summarized (flag_rows sid ids r)"
  by (simp add: flag_rows_def)

lemma inv_compacted:
  assumes inv: "stream_inv sid d"
    and sid: "session_id s1 = sid"
    and msgs: "messages s1 = map row_msg (select_messages d sid None True)"
    and ne: "messages s1 \<noteq> []"
  shows "stream_inv sid (compacted sid (summarizer_output a now d s1 resp) d)"
proof -
  let ?out = "summarizer_output a now d s1 resp"
  let ?L = "session_rows d sid"
  let ?S = "session_sums d sid"
  from inv obtain A U where
    srt: "sorted (map (\<lambda>r. timestamp (row_msg r)) ?L)" and
    cont: "contiguous (map output_of_row ?S)" and
    split: "?L = A @ U" and
    A: "\<forall>r\<in>set A. is_summarized r" and U: "\<forall>r\<in>set U. \<not> is_summarized r" and
    last: "?S \<noteq> [] \<longrightarrow> to_message_index (last ?S) + 1 = int (length A)"
    unfolding stream_inv_def by blast
  have log: "session_log d sid = A @ U" using sorted_log [OF srt] split by simp
  have fA: "filter (\<lambda>r. \<not> is_summarized r) A = []" using A by (simp add: filter_empty_conv)
  have fU: "filter (\<lambda>r. \<not> is_summarized r) U = U" using U by (simp add: filter_id_conv)
  have len: "length (messages s1) = length U"
    by (simp add: msgs length_unarchived split fA fU)
  have f: "from_index (message_range_summarized ?out) = int (length A)"
    and t: "to_index (message_range_summarized ?out) = int (length A) + int (length U) - 1"
    by (simp_all add: summarizer_output_def sid log len)
  have ids: "range_ids d sid (int (length A)) (int (length A) + int (length U) - 1) = map row_id U"
    using log by (simp add: range_ids_def session_log_def sql_limit_def sql_offset_def)
  have rows: "session_rows (compacted sid ?out d) sid =
                map (flag_rows sid (set (map row_id U))) (A @ U)"
    by (simp add: session_rows_compacted f t ids split)
  have sess: "row_session r = sid" if "r \<in> set U" for r
  proof -
    from that have "r \<in> set ?L" by (simp add: split)
    then show ?thesis by (simp add: session_rows_def)
  qed
  have all: "\<forall>r\<in>set (session_rows (compacted sid ?out d) sid). is_summarized r"
    unfolding rows using A sess by (auto simp: flag_rows_def)
  have ts: "map (\<lambda>r. timestamp (row_msg r)) (session_rows (compacted sid ?out d) sid)
              = map (\<lambda>r. timestamp (row_msg r)) ?L"
    by (simp add: rows split comp_def)
  let ?row = "\<lparr>summary_id = next_id (map summary_id (session_summaries_tbl d)),
               summary_session = sid, summary_json = session_summary ?out,
               from_message_index = from_index (message_range_summarized ?out),
               to_message_index = to_index (message_range_summarized ?out),
               summary_timestamp = smo_timestamp ?out\<rparr>"
  have sums: "session_sums (compacted sid ?out d) sid = ?S @ [?row]"
    by (simp add: session_sums_compacted)
  have lastS: "last (map output_of_row ?S) = output_of_row (last ?S)" if "?S \<noteq> []"
    using that by (simp add: last_map)
  have s2: "contiguous (map output_of_row (?S @ [?row]))"
    using cont last lastS by (simp add: contiguous_append output_of_row_def f)
  have s3: "to_message_index (last (?S @ [?row])) + 1
              = int (length (session_rows (compacted sid ?out d) sid))"
    by (simp add: t rows)
  show ?thesis
    unfolding stream_inv_def sums ts
    using srt s2
    apply (intro conjI)
      apply assumption+
    apply (rule exI [of _ "session_rows (compacted sid ?out d) sid"], rule exI [of _ "[]"])
    using all s3 by simp
qed

lemma inv_insert:
  assumes inv: "stream_inv sid d" and tl: "messages_le sid d (timestamp m)"
  shows "stream_inv sid (snd (insert_message sid m d))"
proof -
  let ?L = "session_rows d sid"
  let ?S = "session_sums d sid"
  from inv obtain A U where
    srt: "sorted (map (\<lambda>r. timestamp (row_msg r)) ?L)" and
    cont: "contiguous (map output_of_row ?S)" and
    split: "?L = A @ U" and
    A: "\<forall>r\<in>set A. is_summarized r" and U: "\<forall>r\<in>set U. \<not> is_summarized r" and
    last: "?S \<noteq> [] \<longrightarrow> to_message_index (last ?S) + 1 = int (length A)"
    unfolding stream_inv_def by blast
  let ?row = "\<lparr>row_id = next_id (map row_id (messages_tbl d)), row_session = sid,
               row_msg = m\<lparr>metadata := (case metadata m of None \<Rightarrow> None
                                         | Some kvs \<Rightarrow> if kvs = [] then None else Some kvs)\<rparr>,
               is_summarized = False\<rparr>"
  have rows: "session_rows (snd (insert_message sid m d)) sid = A @ (U @ [?row])"
    by (simp add: session_rows_insert split)
  have s1: "sorted (map (\<lambda>r. timestamp (row_msg r)) (A @ (U @ [?row])))"
    using srt tl unfolding split messages_le_def by (auto simp: sorted_append)
  show ?thesis
    unfolding stream_inv_def session_sums_insert rows
    using s1 cont
    apply (intro conjI)
      apply assumption+
    apply (rule exI [of _ A], rule exI [of _ "U @ [?row]"])
    using A U last by simp
qed

lemma inv_step:
  assumes inv: "stream_inv sid (store w)"
    and tl: "\<And>m. e = Save sid m \<Longrightarrow> messages_le sid (store w) (timestamp m)"
  shows "stream_inv sid (store (step a e w))"
proof (cases e)
  case (Save sid' m)
  show ?thesis
  proof (cases "sid' = sid")
    case True
    with save_store [of a sid' m w] inv tl Save show ?thesis
      by (auto simp: inv_insert)
  next
    case False
    then have "stream_inv sid (snd (insert_message sid' m (store w)))"
      using inv by (simp add: stream_inv_def session_rows_insert session_sums_insert)
    with save_store [of a sid' m w] inv Save show ?thesis by auto
  qed
next
  case (Turn sid' query now)
  show ?thesis
  proof (cases "sid' = sid")
    case True
    with turn_store [of a sid' query now w] inv Turn show ?thesis
      by (auto simp: inv_compacted)
  next
    case False
    then have "stream_inv sid (compacted sid' s (store w))" for s
      using inv by (simp add: stream_inv_def session_rows_compacted_other session_sums_compacted)
    with turn_store [of a sid' query now w] inv Turn show ?thesis by auto
  qed
qed

lemma messages_le_step:
  assumes tl: "messages_le sid (store w) t"
    and ev: "\<And>m. e = Save sid m \<Longrightarrow> timestamp m \<le> t"
  shows "messages_le sid (store (step a e w)) t"
proof (cases e)
  case (Save sid' m)
  have "messages_le sid (snd (insert_message sid' m (store w))) t"
    using tl ev Save by (auto simp: messages_le_def session_rows_insert)
  with save_store [of a sid' m w] tl Save show ?thesis by auto
next
  case (Turn sid' query now)
  have "messages_le sid (compacted sid' s (store w)) t" for s
    using tl by (auto simp: messages_le_def session_rows_compacted)
  with turn_store [of a sid' query now w] tl Turn show ?thesis by auto
qed

lemma inv_run_events:
  assumes "stream_inv sid (store w)"
    and "sorted (saved_times sid evs)"
    and "\<forall>t\<in>set (saved_times sid evs). messages_le sid (store w) t"
  shows "stream_inv sid (store (run_events a evs w))"
  using assms
proof (induction evs arbitrary: w)
  case Nil
  then show ?case by simp
next
  case (Cons e es)
  have i: "stream_inv sid (store (step a e w))"
    using Cons.prems by (intro inv_step) auto
  have s: "sorted (saved_times sid es)"
    using Cons.prems(2) by (cases e) (auto split: if_splits)
  have t: "\<forall>t\<in>set (saved_times sid es). messages_le sid (store (step a e w)) t"
  proof
    fix t assume t: "t \<in> set (saved_times sid es)"
    have "messages_le sid (store w) t"
      using Cons.prems(3) t by (cases e) (auto split: if_splits)
    moreover have "timestamp m \<le> t" if "e = Save sid m" for m
      using Cons.prems(2) t that by auto
    ultimately show "messages_le sid (store (step a e w)) t"
      by (intro messages_le_step) auto
  qed
  from Cons.IH [OF i s t] show ?case by simp
qed

subsection \<open>Reading the summaries back\<close>

lemma foldr_insort_least:
  assumes "\<forall>y\<in>set ys. f x < f y"
  shows "foldr (insort_key f) ys (x # zs) = x # foldr (insort_key f) ys zs"
  using assms by (induction ys) auto

lemma sort_key_rev_strict:
  assumes "sorted_wrt (<) (map f xs)"
  shows "sort_key f (rev xs) = xs"
  using assms
proof (induction xs)
  case Nil
  then show ?case by simp
next
  case (Cons x xs)
  then have lt: "\<forall>y\<in>set (rev xs). f x < f y" and IH: "sort_key f (rev xs) = xs" by auto
  have "sort_key f (rev (x # xs)) = foldr (insort_key f) (rev xs) [x]"
    by (simp add: sort_key_def)
  also have "\<dots> = x # foldr (insort_key f) (rev xs) []"
    by (rule foldr_insort_least [OF lt])
  also have "\<dots> = x # xs" using IH by (simp add: sort_key_def)
  finally show ?case .
qed

lemma select_summaries_strict:
  assumes "sorted_wrt (<) (map summary_timestamp (session_sums d sid))"
  shows "select_summaries d sid = session_sums d sid"
  using sort_key_rev_strict [OF assms]
  by (simp add: select_summaries_def summaries_desc_def session_sums_def)

lemma strict_step:
  assumes st: "sorted_wrt (<) (map summary_timestamp (session_sums (store w) sid))"
    and lt: "\<And>query now. e = Turn sid query now \<Longrightarrow> summaries_lt sid (store w) now"
  shows "sorted_wrt (<) (map summary_timestamp (session_sums (store (step a e w)) sid))"
proof (cases e)
  case (Save sid' m)
  with save_store [of a sid' m w] st show ?thesis
    by (auto simp: session_sums_insert)
next
  case (Turn sid' query now)
  have "sorted_wrt (<) (map summary_timestamp
          (session_sums (compacted sid' (summarizer_output a now (store w) s1 resp) (store w)) sid))"
    for s1 resp
    using st lt Turn
    by (auto simp: session_sums_compacted sorted_wrt_append summaries_lt_def
          summarizer_output_def)
  with turn_store [of a sid' query now w] st Turn show ?thesis by auto
qed

lemma summaries_lt_step:
  assumes lt: "summaries_lt sid (store w) t"
    and ev: "\<And>query now. e = Turn sid query now \<Longrightarrow> now < t"
  shows "summaries_lt sid (store (step a e w)) t"
proof (cases e)
  case (Save sid' m)
  with save_store [of a sid' m w] lt show ?thesis
    by (auto simp: summaries_lt_def session_sums_insert)
next
  case (Turn sid' query now)
  have "summaries_lt sid (compacted sid' (summarizer_output a now (store w) s1 resp) (store w)) t"
    for s1 resp
    using lt ev Turn
    by (auto simp: summaries_lt_def session_sums_compacted summarizer_output_def)
  with turn_store [of a sid' query now w] lt Turn show ?thesis by auto
qed

lemma strict_run_events:
  assumes "sorted_wrt (<) (map summary_timestamp (session_sums (store w) sid))"
    and "sorted_wrt (<) (turn_times sid evs)"
    and "\<forall>t\<in>set (turn_times sid evs). summaries_lt sid (store w) t"
  shows "sorted_wrt (<) (map summary_timestamp (session_sums (store (run_events a evs w)) sid))"
  using assms
proof (induction evs arbitrary: w)
  case Nil
  then show ?case by simp
next
  case (Cons e es)
  have i: "sorted_wrt (<) (map summary_timestamp (session_sums (store (step a e w)) sid))"
    using Cons.prems by (intro strict_step) auto
  have s: "sorted_wrt (<) (turn_times sid es)"
    using Cons.prems(2) by (cases e) (auto split: if_splits)
  have t: "\<forall>t\<in>set (turn_times sid es). summaries_lt sid (store (step a e w)) t"
  proof
    fix t assume t: "t \<in> set (turn_times sid es)"
    have "summaries_lt sid (store w) t"
      using Cons.prems(3) t by (cases e) (auto split: if_splits)
    moreover have "now < t" if "e = Turn sid query now" for query now
      using Cons.prems(2) t that by auto
    ultimately show "summaries_lt sid (store (step a e w)) t"
      by (intro summaries_lt_step) auto
  qed
  from Cons.IH [OF i s t] show ?case by simp
qed

subsection \<open>Three concrete histories\<close>

lemma save_store_reliable:
  assumes "reliable_storage a"
  shows "store (step a (Save sid m) w) = snd (insert_message sid m (store w))"
  by (simp add: save_message_def reliable_transaction [OF assms])

lemma turn_store_reliable:
  assumes rel: "reliable_storage a" and svc: "service_answers a"
  shows "\<exists>resp. store (step a (Turn sid query now) w) =
           (if needs_summarization (context_state a (store w) sid query)
               \<and> messages (context_state a (store w) sid query) \<noteq> []
            then compacted sid
                   (summarizer_output a now (store w) (context_state a (store w) sid query) resp)
                   (store w)
            else store w)"
proof -
  let ?s1 = "context_state a (store w) sid query"
  let ?w1 = "w\<lparr>steps := steps w + 2\<rparr>"
  have tail: "store (snd (bind_io (query_agent a s2) (response_agent a) w2)) = store w2" for s2 w2
  proof -
    obtain s3 w3 where q: "query_agent a s2 w2 = (Inr s3, w3)" "store w3 = store w2"
      using query_agent_total [OF rel svc, of s2 w2] by blast
    obtain s4 w4 where r: "response_agent a s3 w3 = (Inr s4, w4)" "store w4 = store w3"
      using response_agent_total [OF svc, of s3 w3] by blast
    from q r show ?thesis by (simp add: bind_io_def)
  qed
  show ?thesis
  proof (cases "needs_summarization ?s1")
    case False
    then show ?thesis
      by (simp add: run_after_context [OF rel] should_summarize_def bind_io_def return_io_def
            tail [unfolded bind_io_def])
  next
    case need: True
    show ?thesis
    proof (cases "messages ?s1 = []")
      case True
      then have "summarizer_agent a now ?s1 ?w1 = (Inr ?s1, ?w1)"
        by (simp add: summarizer_agent_def return_io_def)
      with need True show ?thesis
        by (simp add: run_after_context [OF rel] should_summarize_def bind_io_def
              tail [unfolded bind_io_def])
    next
      case False
      from svc obtain resp where
        llm: "llm_invoke a Structured (llm_calls ?w1) (summarizer_prompt a (store ?w1) ?s1) = Inr resp"
        unfolding service_answers_def by blast
      have le: "length (messages ?s1) \<le> length (session_log (store ?w1) (session_id ?s1))"
        by (simp add: unarchived_le_log)
      note sum = summarizer_agent_reliable [OF rel False llm le, where now = now]
      have "store (step a (Turn sid query now) w) =
              compacted sid (summarizer_output a now (store w) ?s1 resp) (store w)"
        using need sum
        by (simp add: run_after_context [OF rel] should_summarize_def bind_io_def
              tail [unfolded bind_io_def])
      with need False show ?thesis by auto
    qed
  qed
qed

lemma ex_turn_store:
  "store (step (ex_agents 0 (\<lambda>n. Inr r) (\<lambda>n. False)) (Turn sid query now) w) =
     (if 0 < live_tokens (ex_agents 0 (\<lambda>n. Inr r) (\<lambda>n. False)) (store w) sid
         \<and> select_messages (store w) sid None True \<noteq> []
      then compacted sid
             \<lparr>session_summary = empty_summary,
              message_range_summarized =
                \<lparr>from_index = int (length (session_log (store w) sid))
                                - int (length (select_messages (store w) sid None True)),
                 to_index = int (length (session_log (store w) sid)) - 1\<rparr>,
              smo_timestamp = now\<rparr>
             (store w)
      else store w)"
proof -
  let ?a = "ex_agents 0 (\<lambda>n. Inr r) (\<lambda>n. False)"
  have o: "summarizer_output ?a now (store w) (context_state ?a (store w) sid query) resp =
             \<lparr>session_summary = empty_summary,
              message_range_summarized =
                \<lparr>from_index = int (length (session_log (store w) sid))
                                - int (length (select_messages (store w) sid None True)),
                 to_index = int (length (session_log (store w) sid)) - 1\<rparr>,
              smo_timestamp = now\<rparr>" for resp
    by (simp add: summarizer_output_def ex_parse_summary)
  have n: "needs_summarization (context_state ?a (store w) sid query)
             \<longleftrightarrow> 0 < live_tokens ?a (store w) sid"
    by (simp add: context_state_def ex_agents_def)
  from turn_store_reliable [OF ex_reliable ex_service_answers, of 0 r sid query now w]
  show ?thesis unfolding o n by auto
qed

lemma ex_save_store:
  "store (step (ex_agents t reply (\<lambda>n. False)) (Save sid m) w)
     = snd (insert_message sid m (store w))"
  by (rule save_store_reliable [OF ex_reliable])

lemmas ex_eval = insert_message_def next_id_def live_tokens_def select_messages_def
  session_log_def order_by_timestamp_def compacted_def insert_summary_def
  update_summarized_def range_ids_def sql_limit_def sql_offset_def select_summaries_def
  ex_message_def init_world_def empty_database_def


lemma ex_stale_store:
  "store (run_events (ex_agents 0 (\<lambda>n. Inr ''{}'') (\<lambda>n. False)) ex_stale_events init_world) =
     \<lparr>messages_tbl =
        [\<lparr>row_id = 1, row_session = ''s'', row_msg = ex_message ''user'' ''a'' 10,
          is_summarized = True\<rparr>,
         \<lparr>row_id = 2, row_session = ''s'', row_msg = ex_message ''user'' ''b'' 5,
          is_summarized = False\<rparr>],
      session_summaries_tbl =
        [\<lparr>summary_id = 1, summary_session = ''s'', summary_json = empty_summary,
          from_message_index = 0, to_message_index = 0, summary_timestamp = 11\<rparr>,
         \<lparr>summary_id = 2, summary_session = ''s'', summary_json = empty_summary,
          from_message_index = 1, to_message_index = 1, summary_timestamp = 12\<rparr>,
         \<lparr>summary_id = 3, summary_session = ''s'', summary_json = empty_summary,
          from_message_index = 1, to_message_index = 1, summary_timestamp = 13\<rparr>]\<rparr>"
  unfolding ex_stale_events_def run_events.simps ex_turn_store ex_save_store
  by (simp add: ex_eval ex_agents_def)

lemma ex_events_store:
  "store (run_events (ex_agents 0 (\<lambda>n. Inr ''{}'') (\<lambda>n. False)) ex_events init_world) =
     \<lparr>messages_tbl =
        [\<lparr>row_id = 1, row_session = ''s'', row_msg = ex_message ''user'' ''a'' 10,
          is_summarized = True\<rparr>,
         \<lparr>row_id = 2, row_session = ''s'', row_msg = ex_message ''user'' ''b'' 12,
          is_summarized = True\<rparr>],
      session_summaries_tbl =
        [\<lparr>summary_id = 1, summary_session = ''s'', summary_json = empty_summary,
          from_message_index = 0, to_message_index = 0, summary_timestamp = 5\<rparr>,
         \<lparr>summary_id = 2, summary_session = ''s'', summary_json = empty_summary,
          from_message_index = 1, to_message_index = 1, summary_timestamp = 6\<rparr>]\<rparr>"
  unfolding ex_events_def run_events.simps ex_turn_store ex_save_store
  by (simp add: ex_eval ex_agents_def)

lemma ex_tied_store:
  "store (run_events (ex_agents 0 (\<lambda>n. Inr ''{}'') (\<lambda>n. False)) ex_tied_events init_world) =
     \<lparr>messages_tbl =
        [\<lparr>row_id = 1, row_session = ''s'', row_msg = ex_message ''user'' ''a'' 10,
          is_summarized = True\<rparr>,
         \<lparr>row_id = 2, row_session = ''s'', row_msg = ex_message ''user'' ''b'' 20,
          is_summarized = True\<rparr>],
      session_summaries_tbl =
        [\<lparr>summary_id = 1, summary_session = ''s'', summary_json = empty_summary,
          from_message_index = 0, to_message_index = 0, summary_timestamp = 20\<rparr>,
         \<lparr>summary_id = 2, summary_session = ''s'', summary_json = empty_summary,
          from_message_index = 1, to_message_index = 1, summary_timestamp = 20\<rparr>]\<rparr>"
  unfolding ex_tied_events_def run_events.simps ex_turn_store ex_save_store
  by (simp add: ex_eval ex_agents_def)

lemma ex_tied_read_back:
  "sorted (saved_times ''s'' ex_tied_events)
   \<and> map from_message_index (session_sums (store (run_events ex_eager ex_tied_events init_world)) ''s'')
       = [0, 1]
   \<and> map from_message_index
         (select_summaries (store (run_events ex_eager ex_tied_events init_world)) ''s'')
       = [1, 0]"
  unfolding ex_eager_def ex_tied_store
  by (simp add: ex_tied_events_def ex_message_def session_sums_def select_summaries_def
        summaries_desc_def)

subsection \<open>Contiguous ranges\<close>

text \<open>
  C3, as amended. Start from the empty store and let any sequence of saved messages and
  turns happen one after the other, with any storage failures and any behaviour of the
  generation service. If the timestamps of the messages saved for a session never decrease
  along the sequence, then among the session's summaries, taken in the order they were
  persisted, each one starts at the index right after the one where its predecessor ends.
  If moreover the clock readings of the session's turns strictly increase, the summaries
  are read back in the order they were persisted, so that the list read back is contiguous
  too. (With equal clock readings the list is read back in reverse, as \<open>ex_tied_read_back\<close>
  shows.)
\<close>

theorem summaries_contiguous:
  assumes "sorted (saved_times sid evs)"
  shows "(\<forall>i. Suc i < length (session_sums (store (run_events a evs init_world)) sid) \<longrightarrow>
            from_message_index (session_sums (store (run_events a evs init_world)) sid ! Suc i)
            = to_message_index (session_sums (store (run_events a evs init_world)) sid ! i) + 1)
       \<and> (sorted_wrt (<) (turn_times sid evs) \<longrightarrow>
            select_summaries (store (run_events a evs init_world)) sid
              = session_sums (store (run_events a evs init_world)) sid
            \<and> (\<forall>i. Suc i < length (select_summaries (store (run_events a evs init_world)) sid) \<longrightarrow>
                  from_message_index
                    (select_summaries (store (run_events a evs init_world)) sid ! Suc i)
                  = to_message_index
                      (select_summaries (store (run_events a evs init_world)) sid ! i) + 1))"
proof -
  let ?d = "store (run_events a evs init_world)"
  have i0: "stream_inv sid (store init_world)"
    by (simp add: stream_inv_def init_world_def empty_database_def session_rows_def
          session_sums_def)
  have t0: "\<forall>t\<in>set (saved_times sid evs). messages_le sid (store init_world) t"
    by (simp add: messages_le_def init_world_def empty_database_def session_rows_def)
  from inv_run_events [OF i0 assms t0] have "stream_inv sid ?d" .
  then have c: "contiguous (map output_of_row (session_sums ?d sid))"
    by (simp add: stream_inv_def)
  have persisted: "from_message_index (session_sums ?d sid ! Suc i)
                     = to_message_index (session_sums ?d sid ! i) + 1"
    if "Suc i < length (session_sums ?d sid)" for i
  proof -
    from that have "Suc i < length (map output_of_row (session_sums ?d sid))" by simp
    from contiguous_nth [OF c this] that show ?thesis by (simp add: output_of_row_def)
  qed
  have read: "select_summaries ?d sid = session_sums ?d sid"
    if strict: "sorted_wrt (<) (turn_times sid evs)"
  proof -
    have s0: "sorted_wrt (<) (map summary_timestamp (session_sums (store init_world) sid))"
      by (simp add: init_world_def empty_database_def session_sums_def)
    have l0: "\<forall>t\<in>set (turn_times sid evs). summaries_lt sid (store init_world) t"
      by (simp add: summaries_lt_def init_world_def empty_database_def session_sums_def)
    from strict_run_events [OF s0 strict l0] show ?thesis by (rule select_summaries_strict)
  qed
  from persisted read show ?thesis by simp
qed

theorem summaries_contiguous_witness:
  "sorted (saved_times ''s'' ex_events)
   \<and> sorted_wrt (<) (turn_times ''s'' ex_events)
   \<and> length (session_sums (store (run_events ex_eager ex_events init_world)) ''s'') = 2
   \<and> from_message_index
       (session_sums (store (run_events ex_eager ex_events init_world)) ''s'' ! Suc 0)
     = to_message_index
         (session_sums (store (run_events ex_eager ex_events init_world)) ''s'' ! 0) + 1
   \<and> select_summaries (store (run_events ex_eager ex_events init_world)) ''s''
     = session_sums (store (run_events ex_eager ex_events init_world)) ''s''"
proof -
  have s: "sorted (saved_times ''s'' ex_events)"
    by (simp add: ex_events_def ex_message_def)
  have t: "sorted_wrt (<) (turn_times ''s'' ex_events)"
    by (simp add: ex_events_def)
  have l: "length (session_sums (store (run_events ex_eager ex_events init_world)) ''s'') = 2"
    unfolding ex_eager_def ex_events_store by (simp add: session_sums_def)
  from summaries_contiguous [OF s, of ex_eager] l s t
  show ?thesis by simp
qed

text \<open>
  Without the condition on the messages' timestamps the claim fails. In the history below
  the second message is stored after the first compaction with an older timestamp, so it
  sorts before the archived message: the second compaction flags the archived message
  again, the new message stays live, and the third compaction repeats the range of the
  second. The turns' clocks increase, so the summaries are read back as they were persisted.
\<close>

theorem stale_timestamp_breaks_contiguity:
  "map from_message_index
     (session_sums (store (run_events ex_eager ex_stale_events init_world)) ''s'') = [0, 1, 1]
   \<and> map to_message_index
       (session_sums (store (run_events ex_eager ex_stale_events init_world)) ''s'') = [0, 1, 1]
   \<and> select_summaries (store (run_events ex_eager ex_stale_events init_world)) ''s''
     = session_sums (store (run_events ex_eager ex_stale_events init_world)) ''s''
   \<and> from_message_index
       (session_sums (store (run_events ex_eager ex_stale_events init_world)) ''s'' ! 2)
     \<noteq> to_message_index
         (session_sums (store (run_events ex_eager ex_stale_events init_world)) ''s'' ! 1)
       + 1"
  unfolding ex_eager_def ex_stale_store
  by (simp add: session_sums_def select_summaries_def summaries_desc_def)

end
